theory Spec2Isabelle
  imports Main "HOL-Library.Sublist"
begin

section \<open>Python strings\<close>

text \<open>
  A Python \<open>str\<close> is modelled as a \<open>string\<close> holding its UTF-8 bytes (well-formed text:
  no lone surrogates).  Searching for, splitting at and comparing with literals commute
  with the encoding.  \<open>str.strip\<close> and \<open>int\<close> classify characters, so they read the
  bytes as code points: the white space of \<open>str.isspace\<close> and the decimal digits of the
  Unicode database (version 14.0, as in CPython 3.11) are written out below.
\<close>

datatype error = IndexError | ValueError | TypeError | HTTPError | JSONDecodeError

definition newline :: char where
  "newline = CHR 0x0A"

definition backslash :: char where
  "backslash = CHR 0x5C"

definition startswith :: "string \<Rightarrow> string \<Rightarrow> bool" where
  "startswith s p = prefix p s"

definition endswith :: "string \<Rightarrow> string \<Rightarrow> bool" where
  "endswith s p = suffix p s"

text \<open>\<open>sub in s\<close> on strings: \<open>sub\<close> occurs in \<open>s\<close> as a contiguous run.\<close>

fun contains :: "string \<Rightarrow> string \<Rightarrow> bool" where
  "contains [] sub = (sub = [])"
| "contains (c # cs) sub = (prefix sub (c # cs) \<or> contains cs sub)"

text \<open>
  \<open>s.split(sep)\<close> for a non-empty separator: the pieces between the occurrences of
  \<open>sep\<close>, found from the left without overlap.  The result is never empty.  Python raises
  ValueError for an empty separator; every separator of the program is a non-empty literal,
  and the model leaves the string whole there.
\<close>

function py_split :: "string \<Rightarrow> string \<Rightarrow> string list" where
  "py_split [] sep = [[]]"
| "py_split (c # cs) sep =
     (if sep \<noteq> [] \<and> prefix sep (c # cs)
      then [] # py_split (drop (length sep) (c # cs)) sep
      else (case py_split cs sep of
              [] \<Rightarrow> [[c]]
            | p # ps \<Rightarrow> (c # p) # ps))"
  by pat_completeness auto
termination
  by (relation "measure (\<lambda>(s, sep). length s)") (auto simp: neq_Nil_conv)

text \<open>\<open>xs[i]\<close> for an index \<open>i \<ge> 0\<close>: IndexError out of range.\<close>

definition py_index :: "'a list \<Rightarrow> nat \<Rightarrow> error + 'a" where
  "py_index xs i = (if i < length xs then Inr (xs ! i) else Inl IndexError)"

text \<open>
  The characters of a string: a byte that is no continuation byte opens a character, the
  continuation bytes after it belong to it.  \<open>code_point\<close> is the number the bytes of
  one character encode.
\<close>

definition is_continuation :: "char \<Rightarrow> bool" where
  "is_continuation b = (let n = (of_char b :: int) in 128 \<le> n \<and> n < 192)"

function utf8_chars :: "string \<Rightarrow> string list" where
  "utf8_chars [] = []"
| "utf8_chars (b # bs) =
     (b # takeWhile is_continuation bs) # utf8_chars (dropWhile is_continuation bs)"
  by pat_completeness auto
termination
  by (relation "measure length") (auto simp: length_dropWhile_le le_imp_less_Suc)

definition lead_payload :: "int \<Rightarrow> int" where
  "lead_payload n =
     (if n < 128 then n else if n < 224 then n - 192 else if n < 240 then n - 224 else n - 240)"

definition code_point :: "string \<Rightarrow> int" where
  "code_point g =
     (case g of
        [] \<Rightarrow> 0
      | b # cs \<Rightarrow> foldl (\<lambda>acc c. 64 * acc + (of_char c - 128)) (lead_payload (of_char b)) cs)"

text \<open>
  White space as \<open>str.strip\<close> sees it (\<open>str.isspace\<close>), and as the C library sees it
  (\<open>int\<close> skips only this around an ASCII literal).
\<close>

definition unicode_space :: "int \<Rightarrow> bool" where
  "unicode_space n =
     ((9 \<le> n \<and> n \<le> 13) \<or> (28 \<le> n \<and> n \<le> 32) \<or> n = 0x85 \<or> n = 0xA0 \<or> n = 0x1680
      \<or> (0x2000 \<le> n \<and> n \<le> 0x200A) \<or> n = 0x2028 \<or> n = 0x2029 \<or> n = 0x202F
      \<or> n = 0x205F \<or> n = 0x3000)"

definition c_space :: "char \<Rightarrow> bool" where
  "c_space c = (let n = (of_char c :: int) in (9 \<le> n \<and> n \<le> 13) \<or> n = 32)"

text \<open>
  The decimal digits of the character database of Python 3.11 (Unicode 14): every run of
  ten starts at one of these code points, which has the value 0.
\<close>

definition decimal_zeros :: "int list" where
  "decimal_zeros =
     [0x30, 0x660, 0x6F0, 0x7C0, 0x966, 0x9E6, 0xA66, 0xAE6, 0xB66, 0xBE6, 0xC66, 0xCE6,
      0xD66, 0xDE6, 0xE50, 0xED0, 0xF20, 0x1040, 0x1090, 0x17E0, 0x1810, 0x1946, 0x19D0,
      0x1A80, 0x1A90, 0x1B50, 0x1BB0, 0x1C40, 0x1C50, 0xA620, 0xA8D0, 0xA900, 0xA9D0,
      0xA9F0, 0xAA50, 0xABF0, 0xFF10, 0x104A0, 0x10D30, 0x11066, 0x110F0, 0x11136,
      0x111D0, 0x112F0, 0x11450, 0x114D0, 0x11650, 0x116C0, 0x11730, 0x118E0, 0x11950,
      0x11C50, 0x11D50, 0x11DA0, 0x16A60, 0x16AC0, 0x16B50, 0x1D7CE, 0x1D7D8, 0x1D7E2,
      0x1D7EC, 0x1D7F6, 0x1E140, 0x1E2F0, 0x1E950, 0x1FBF0]"

definition decimal_value :: "int \<Rightarrow> int option" where
  "decimal_value n =
     (case find (\<lambda>z. z \<le> n \<and> n < z + 10) decimal_zeros of
        None \<Rightarrow> None
      | Some z \<Rightarrow> Some (n - z))"

text \<open>\<open>s.strip()\<close>: the white space characters at both ends are removed.\<close>

definition space_char :: "string \<Rightarrow> bool" where
  "space_char g = unicode_space (code_point g)"

definition py_strip :: "string \<Rightarrow> string" where
  "py_strip s = concat (rev (dropWhile space_char (rev (dropWhile space_char (utf8_chars s)))))"

definition digit_char :: "nat \<Rightarrow> char" where
  "digit_char d = char_of (48 + d)"

definition is_digit :: "char \<Rightarrow> bool" where
  "is_digit c = (let n = (of_char c :: nat) in 48 \<le> n \<and> n \<le> 57)"

definition digit_val :: "char \<Rightarrow> nat" where
  "digit_val c = of_char c - 48"

text \<open>
  The digits of an integer literal as \<open>int\<close> takes them: a digit first and last, and single
  underscores only between two digits.
\<close>

fun digits_ok :: "string \<Rightarrow> bool" where
  "digits_ok [] = False"
| "digits_ok [c] = is_digit c"
| "digits_ok (c # d # r) =
     (is_digit c \<and> (if d = CHR ''_'' then digits_ok r else digits_ok (d # r)))"

definition digits_value :: "string \<Rightarrow> nat" where
  "digits_value ds = foldl (\<lambda>acc c. 10 * acc + digit_val c) 0 ds"

text \<open>
  \<open>int(s)\<close> in base ten.  The interpreter first rewrites the text to ASCII, character by
  character: an ASCII character stays, any other white space becomes a blank, any other
  decimal digit becomes the ASCII digit of its value, and anything else becomes a
  question mark (which no literal contains).  Then C white space around the literal is
  skipped, one sign may come first, and the rest must be digits with single underscores
  between them, at most 4300 digits (the interpreter's default limit).  Every failure
  is a ValueError.
\<close>

definition ascii_char :: "string \<Rightarrow> char" where
  "ascii_char g =
     (let n = code_point g
      in if n < 128 then char_of n
         else if unicode_space n then CHR '' ''
         else (case decimal_value n of None \<Rightarrow> CHR ''?'' | Some d \<Rightarrow> char_of (48 + d)))"

definition int_max_str_digits :: nat where
  "int_max_str_digits = 4300"

definition py_int :: "string \<Rightarrow> error + int" where
  "py_int s =
     (let a = map ascii_char (utf8_chars s);
          t = rev (dropWhile c_space (rev (dropWhile c_space a)));
          neg = startswith t ''-'';
          body = (if startswith t ''-'' \<or> startswith t ''+'' then tl t else t);
          digits = filter is_digit body
      in if digits_ok body \<and> length digits \<le> int_max_str_digits
         then Inr ((if neg then - 1 else 1) * int (digits_value digits))
         else Inl ValueError)"

section \<open>The diff line mapper\<close>

text \<open>
  The body of the \<open>try\<close> block of \<open>parse_diff_for_new_lines\<close>: the new-file start of a
  hunk header, or the exception the extraction raises.
  \<^verbatim>\<open>
  plus_part = line.split("+")[1].split("@@")[0].strip()
  if "," in plus_part:
      current_new_line = int(plus_part.split(",")[0])
  else:
      current_new_line = int(plus_part)
  \<close>
\<close>

definition hunk_start :: "string \<Rightarrow> error + int" where
  "hunk_start line =
     (case py_index (py_split line ''+'') 1 of
        Inl e \<Rightarrow> Inl e
      | Inr after_plus \<Rightarrow>
          (case py_index (py_split after_plus ''@@'') 0 of
             Inl e \<Rightarrow> Inl e
           | Inr before_at \<Rightarrow>
               (let plus_part = py_strip before_at in
                if contains plus_part '','' then
                  (case py_index (py_split plus_part '','') 0 of
                     Inl e \<Rightarrow> Inl e
                   | Inr start \<Rightarrow> py_int start)
                else py_int plus_part)))"

text \<open>
  One round of the loop over the lines, on the pair of \<open>new_lines\<close> and
  \<open>current_new_line\<close>.  The handler catches IndexError and ValueError (\<open>continue\<close>); any
  other exception would leave the function.
\<close>

type_synonym mapper_state = "int list \<times> int"

fun handle_line :: "mapper_state \<Rightarrow> string \<Rightarrow> error + mapper_state" where
  "handle_line (new_lines, current_new_line) line =
     (if startswith line ''@@'' then
        (case hunk_start line of
           Inr start \<Rightarrow> Inr (new_lines, start)
         | Inl IndexError \<Rightarrow> Inr (new_lines, current_new_line)
         | Inl ValueError \<Rightarrow> Inr (new_lines, current_new_line)
         | Inl e \<Rightarrow> Inl e)
      else if startswith line ''+'' \<and> \<not> startswith line ''+++'' then
        Inr (new_lines @ [current_new_line], current_new_line + 1)
      else if startswith line ''-'' \<and> \<not> startswith line ''---'' then
        Inr (new_lines, current_new_line)
      else if \<not> startswith line [backslash] then
        Inr (new_lines, current_new_line + 1)
      else Inr (new_lines, current_new_line))"

fun scan_lines :: "mapper_state \<Rightarrow> string list \<Rightarrow> error + mapper_state" where
  "scan_lines st [] = Inr st"
| "scan_lines st (line # rest) =
     (case handle_line st line of
        Inl e \<Rightarrow> Inl e
      | Inr st' \<Rightarrow> scan_lines st' rest)"

definition parse_diff_for_new_lines :: "string \<Rightarrow> error + int list" where
  "parse_diff_for_new_lines diff =
     (case scan_lines ([], 0) (py_split diff [newline]) of
        Inl e \<Rightarrow> Inl e
      | Inr (new_lines, current_new_line) \<Rightarrow> Inr new_lines)"

section \<open>The file selector\<close>

text \<open>
  \<open>Path(file_path)\<close> is a POSIX path: its components are the pieces between slashes that
  are neither empty nor a single dot, \<open>name\<close> is the last component (the empty string when
  there is none), and \<open>suffix\<close> is the part of the name from its last dot on, provided that
  dot is neither the first nor the last character of the name.
\<close>

definition path_parts :: "string \<Rightarrow> string list" where
  "path_parts file_path = filter (\<lambda>x. x \<noteq> [] \<and> x \<noteq> ''.'') (py_split file_path ''/'')"

definition path_name :: "string \<Rightarrow> string" where
  "path_name file_path =
     (if path_parts file_path = [] then [] else last (path_parts file_path))"

text \<open>\<open>s.rfind(c)\<close> for one character: the index of its last occurrence, or -1.\<close>

definition rfind :: "string \<Rightarrow> char \<Rightarrow> int" where
  "rfind s c =
     (if c \<in> set s then int (length s) - 1 - int (length (takeWhile (\<lambda>x. x \<noteq> c) (rev s)))
      else - 1)"

definition path_suffix :: "string \<Rightarrow> string" where
  "path_suffix file_path =
     (let name = path_name file_path; i = rfind name CHR ''.''
      in if 0 < i \<and> i < int (length name) - 1 then drop (nat i) name else [])"

text \<open>\<open>str.lower\<close> on the ASCII letters; case mappings beyond ASCII are outside the model.\<close>

definition lower_char :: "char \<Rightarrow> char" where
  "lower_char c =
     (let n = (of_char c :: nat) in if 65 \<le> n \<and> n \<le> 90 then char_of (n + 32) else c)"

definition py_lower :: "string \<Rightarrow> string" where
  "py_lower s = map lower_char s"

text \<open>
  The two module-level collections are parameters of the selector; their built-in values
  follow, and \<open>init_config\<close> extends them from the environment before the first call.
\<close>

definition IGNORE_PATTERNS :: "string list" where
  "IGNORE_PATTERNS =
     [''*.lock'', ''*.min.js'', ''*.min.css'',
      ''package-lock.json'', ''yarn.lock'', ''composer.lock'', ''pnpm-lock.yaml'',
      ''__pycache__'', ''.git'', ''node_modules'', ''vendor/'',
      ''*.generated.*'', ''*.map'',
      ''storage/'', ''bootstrap/cache/'', ''public/build/'', ''public/hot'',
      ''dist/'', ''build/'', ''.next/'', ''.nuxt/'',
      ''_ide_helper*'', ''.phpstorm.meta.php'']"

definition REVIEW_EXTENSIONS :: "string set" where
  "REVIEW_EXTENSIONS =
     {''.php'', ''.vue'', ''.blade.php'',
      ''.py'', ''.js'', ''.ts'', ''.tsx'', ''.jsx'', ''.mjs'',
      ''.java'', ''.kt'', ''.go'', ''.rs'', ''.rb'',
      ''.cs'', ''.cpp'', ''.c'', ''.h'', ''.swift''}"

text \<open>
  \<open>init_config\<close>, on the values of the environment variables \<open>IGNORE_PATTERNS\<close> and
  \<open>REVIEW_EXTENSIONS\<close>: the entries between the commas are stripped, the empty ones are
  left out, and an extension without a leading dot gets one; the entries are added as
  they are typed.
\<close>

definition init_config :: "string \<Rightarrow> string \<Rightarrow> string list \<times> string set" where
  "init_config ignore_patterns_extra review_extensions_extra =
     (IGNORE_PATTERNS
        @ (if ignore_patterns_extra \<noteq> []
           then [py_strip p. p \<leftarrow> py_split ignore_patterns_extra '','', py_strip p \<noteq> []]
           else []),
      REVIEW_EXTENSIONS
        \<union> (if review_extensions_extra \<noteq> []
           then set [if startswith (py_strip e) ''.'' then py_strip e else ''.'' @ py_strip e.
                     e \<leftarrow> py_split review_extensions_extra '','', py_strip e \<noteq> []]
           else {}))"

text \<open>
  \<open>should_review_file\<close>: the loop over the patterns leaves with False at the first pattern
  that matches; after the loop the extension decides.
\<close>

fun should_review_file :: "string list \<Rightarrow> string set \<Rightarrow> string \<Rightarrow> bool" where
  "should_review_file [] extensions file_path =
     (py_lower (path_suffix file_path) \<in> extensions)"
| "should_review_file (pattern # rest) extensions file_path =
     (if startswith pattern ''*'' then
        (if path_suffix file_path = drop 1 pattern
            \<or> endswith (path_name file_path) (drop 1 pattern)
         then False
         else should_review_file rest extensions file_path)
      else if endswith pattern ''/'' then
        (if contains file_path (butlast pattern) then False
         else should_review_file rest extensions file_path)
      else if contains file_path pattern then False
      else should_review_file rest extensions file_path)"

text \<open>
  The selector as the specification words it: three kinds of pattern, each with its own
  notion of a match, exclusion when any pattern matches, the extension otherwise.
\<close>

definition glob_suffix_match :: "string \<Rightarrow> string \<Rightarrow> bool" where
  "glob_suffix_match pattern file_path =
     (path_suffix file_path = drop 1 pattern \<or> endswith (path_name file_path) (drop 1 pattern))"

definition directory_match :: "string \<Rightarrow> string \<Rightarrow> bool" where
  "directory_match pattern file_path = contains file_path (butlast pattern)"

definition substring_match :: "string \<Rightarrow> string \<Rightarrow> bool" where
  "substring_match pattern file_path = contains file_path pattern"

definition pattern_matches :: "string \<Rightarrow> string \<Rightarrow> bool" where
  "pattern_matches pattern file_path =
     (if startswith pattern ''*'' then glob_suffix_match pattern file_path
      else if endswith pattern ''/'' then directory_match pattern file_path
      else substring_match pattern file_path)"

definition spec_should_review :: "string list \<Rightarrow> string set \<Rightarrow> string \<Rightarrow> bool" where
  "spec_should_review patterns extensions file_path =
     (if list_ex (\<lambda>pattern. pattern_matches pattern file_path) patterns then False
      else py_lower (path_suffix file_path) \<in> extensions)"

section \<open>Findings\<close>

text \<open>
  The values \<open>json.loads\<close> builds: null, a boolean, an integer, a string, an array, an
  object; numbers with a fraction are outside the model.  A \<open>dict\<close> is the list of its
  items, the first entry of a key being the one \<open>get\<close> finds.
\<close>

datatype json =
    JNull | JBool bool | JInt int | JStr string
  | JArray "json list" | JObject "(string \<times> json) list"

type_synonym pydict = "(string \<times> json) list"

text \<open>\<open>d.get(key, default)\<close>; without a default Python returns None.\<close>

definition dict_get :: "pydict \<Rightarrow> string \<Rightarrow> json \<Rightarrow> json" where
  "dict_get d key dflt = (case map_of d key of None \<Rightarrow> dflt | Some v \<Rightarrow> v)"

text \<open>The truth value of a value in a condition: a container is true when it is not empty.\<close>

fun truthy :: "json \<Rightarrow> bool" where
  "truthy JNull = False"
| "truthy (JBool b) = b"
| "truthy (JInt i) = (i \<noteq> 0)"
| "truthy (JStr s) = (s \<noteq> [])"
| "truthy (JArray items) = (items \<noteq> [])"
| "truthy (JObject d) = (d \<noteq> [])"

fun show_nat :: "nat \<Rightarrow> string" where
  "show_nat n = (if n < 10 then [digit_char n] else show_nat (n div 10) @ [digit_char (n mod 10)])"

declare show_nat.simps [simp del]

definition show_int :: "int \<Rightarrow> string" where
  "show_int i = (if i < 0 then ''-'' @ show_nat (nat (- i)) else show_nat (nat i))"

text \<open>
  What an f-string puts in for a value.  For a list or a dict that is its \<open>repr\<close>, which
  quotes and escapes the strings inside by the character tables of Python; the function
  that renders a container is the parameter \<open>py_repr\<close>, and nothing is assumed of it.
\<close>

fun py_str :: "(json \<Rightarrow> string) \<Rightarrow> json \<Rightarrow> string" where
  "py_str py_repr JNull = ''None''"
| "py_str py_repr (JBool b) = (if b then ''True'' else ''False'')"
| "py_str py_repr (JInt i) = show_int i"
| "py_str py_repr (JStr s) = s"
| "py_str py_repr (JArray items) = py_repr (JArray items)"
| "py_str py_repr (JObject d) = py_repr (JObject d)"

text \<open>
  \<open>v == n\<close> for a value and an integer: a boolean equals 1 or 0; null, a string and a
  container equal no integer.
\<close>

fun py_eq_int :: "json \<Rightarrow> int \<Rightarrow> bool" where
  "py_eq_int (JInt i) n = (i = n)"
| "py_eq_int (JBool b) n = ((if b then 1 else 0) = n)"
| "py_eq_int JNull n = False"
| "py_eq_int (JStr s) n = False"
| "py_eq_int (JArray items) n = False"
| "py_eq_int (JObject d) n = False"

text \<open>\<open>v in xs\<close> for a list of integers.\<close>

definition py_in :: "json \<Rightarrow> int list \<Rightarrow> bool" where
  "py_in v xs = list_ex (py_eq_int v) xs"

text \<open>
  What \<open>for c in comments\<close> runs over: the elements of an array, the keys of an object,
  the characters of a string; any other value is not iterable (TypeError).
\<close>

fun py_iter :: "json \<Rightarrow> error + json list" where
  "py_iter (JArray items) = Inr items"
| "py_iter (JObject d) = Inr (map (\<lambda>(k, v). JStr k) d)"
| "py_iter (JStr s) = Inr (map JStr (utf8_chars s))"
| "py_iter JNull = Inl TypeError"
| "py_iter (JBool b) = Inl TypeError"
| "py_iter (JInt i) = Inl TypeError"

text \<open>
  The test of the list comprehension of \<open>analyze_with_ai\<close>:
  \<^verbatim>\<open>isinstance(c, dict) and c.get("line") in changed_lines and c.get("message")\<close>
\<close>

fun valid_comment :: "int list \<Rightarrow> json \<Rightarrow> pydict option" where
  "valid_comment changed_lines (JObject c) =
     (if py_in (dict_get c ''line'' JNull) changed_lines \<and> truthy (dict_get c ''message'' JNull)
      then Some c else None)"
| "valid_comment changed_lines c = None"

text \<open>
  The advisory service answers a prompt built from the path, the content, the diff, the
  changed lines and the rules.  The client is modelled by what \<open>json.loads\<close> makes of its
  answer (after the optional code fence is removed): a value, or JSONDecodeError.
\<close>

type_synonym ai_client = "string \<Rightarrow> string \<Rightarrow> string \<Rightarrow> int list \<Rightarrow> string \<Rightarrow> error + json"

definition analyze_with_ai ::
  "ai_client \<Rightarrow> string \<Rightarrow> string \<Rightarrow> string \<Rightarrow> int list \<Rightarrow> string \<Rightarrow> error + pydict list" where
  "analyze_with_ai ai_client file_path file_content diff changed_lines rules =
     (case ai_client file_path file_content diff changed_lines rules of
        Inl JSONDecodeError \<Rightarrow> Inr []
      | Inl e \<Rightarrow> Inl e
      | Inr comments \<Rightarrow>
          (case py_iter comments of
             Inl e \<Rightarrow> Inl e
           | Inr items \<Rightarrow> Inr (List.map_filter (valid_comment changed_lines) items)))"

section \<open>The annotation formatter\<close>

definition glyph_critical :: string where
  "glyph_critical = [CHR 0xF0, CHR 0x9F, CHR 0x94, CHR 0xB4]"

definition glyph_warning :: string where
  "glyph_warning = [CHR 0xF0, CHR 0x9F, CHR 0x9F, CHR 0xA1]"

definition glyph_suggestion :: string where
  "glyph_suggestion = [CHR 0xF0, CHR 0x9F, CHR 0x92, CHR 0xA1]"

definition glyph_fallback :: string where
  "glyph_fallback = [CHR 0xF0, CHR 0x9F, CHR 0x92, CHR 0xAC]"

definition severity_emoji :: "(string \<times> string) list" where
  "severity_emoji =
     [(''critical'', glyph_critical), (''warning'', glyph_warning),
      (''suggestion'', glyph_suggestion)]"

text \<open>
  \<open>severity_emoji.get(key, default)\<close>: the key is hashed first, so a list or a dict
  raises TypeError; of the other values only a string can equal one of the keys.
\<close>

fun emoji_for :: "json \<Rightarrow> error + string" where
  "emoji_for (JStr s) =
     Inr (case map_of severity_emoji s of None \<Rightarrow> glyph_fallback | Some g \<Rightarrow> g)"
| "emoji_for (JArray items) = Inl TypeError"
| "emoji_for (JObject d) = Inl TypeError"
| "emoji_for v = Inr glyph_fallback"

definition authorship_marker :: string where
  "authorship_marker = ''**RejPAL**''"

text \<open>The opening of the suggestion block: two line breaks, the quote sign, the heading.\<close>

definition suggestion_heading :: string where
  "suggestion_heading =
     [newline, newline] @ ''> '' @ glyph_suggestion @ '' **N'' @ [CHR 0xC3, CHR 0xA1] @ ''vrh**: ''"

definition format_comment :: "(json \<Rightarrow> string) \<Rightarrow> pydict \<Rightarrow> error + string" where
  "format_comment py_repr comment =
     (case emoji_for (dict_get comment ''severity'' (JStr ''suggestion'')) of
        Inl e \<Rightarrow> Inl e
      | Inr emoji \<Rightarrow>
          (let message = dict_get comment ''message'' (JStr []);
               suggestion = dict_get comment ''suggestion'' (JStr []);
               text = emoji @ '' '' @ authorship_marker @ '': '' @ py_str py_repr message
           in Inr (if truthy suggestion
                   then text @ suggestion_heading @ py_str py_repr suggestion
                   else text)))"

section \<open>Notes, discussions and the review pass\<close>

text \<open>
  What the change-tracking service lists: notes with an identifier, a body and (for an
  inline comment) a position; discussions that group notes.
\<close>

record mr_note =
  note_id :: nat
  note_body :: string
  note_position :: "pydict option"

record discussion =
  discussion_id :: string
  discussion_notes :: "mr_note list"

definition summary_marker :: string where
  "summary_marker = ''## RejPAL''"

definition legacy_summary_marker :: string where
  "legacy_summary_marker = ''## '' @ [CHR 0xF0, CHR 0x9F, CHR 0xA4, CHR 0x96] @ '' AI Code Review''"

fun find_existing_summary_note :: "mr_note list \<Rightarrow> nat option" where
  "find_existing_summary_note [] = None"
| "find_existing_summary_note (note # rest) =
     (if contains (note_body note) summary_marker
         \<or> contains (note_body note) legacy_summary_marker
      then Some (note_id note)
      else find_existing_summary_note rest)"

record existing_comment =
  ec_note_id :: nat
  ec_discussion_id :: string
  ec_file_path :: json
  ec_line :: json

text \<open>The inner loop of \<open>get_existing_ai_comments\<close>, over the notes of one discussion.\<close>

fun existing_in_discussion :: "string \<Rightarrow> mr_note list \<Rightarrow> existing_comment list" where
  "existing_in_discussion did [] = []"
| "existing_in_discussion did (note # rest) =
     (if \<not> contains (note_body note) authorship_marker
         \<and> \<not> contains (note_body note) ''**AI Review**''
      then existing_in_discussion did rest
      else
        (let position = (case note_position note of None \<Rightarrow> [] | Some p \<Rightarrow> p)
         in \<lparr>ec_note_id = note_id note,
             ec_discussion_id = did,
             ec_file_path = (if position \<noteq> [] then dict_get position ''new_path'' JNull else JNull),
             ec_line = (if position \<noteq> [] then dict_get position ''new_line'' JNull else JNull)\<rparr>
            # existing_in_discussion did rest))"

fun get_existing_ai_comments :: "discussion list \<Rightarrow> existing_comment list" where
  "get_existing_ai_comments [] = []"
| "get_existing_ai_comments (d # rest) =
     existing_in_discussion (discussion_id d) (discussion_notes d) @ get_existing_ai_comments rest"

record change =
  change_new_path :: string
  change_diff :: string
  change_deleted_file :: bool

record mr_changes =
  changes :: "change list"
  diff_refs :: pydict

text \<open>
  The client of the change-tracking service, by its answers.  A method that ends in
  \<open>raise_for_status\<close> answers with a value or with HTTPError; \<open>delete_mr_note\<close> and
  \<open>create_mr_discussion\<close> hand back the response, of which the status code is kept
  (they print a warning when it is 400 or more, and no more).  An answer depends on the
  arguments of the request only.
\<close>

record gitlab =
  get_mr_info :: "error + string"
  get_mr_changes :: "error + mr_changes"
  get_mr_discussions :: "error + discussion list"
  delete_mr_note :: "nat \<Rightarrow> nat"
  get_mr_notes :: "error + mr_note list"
  create_mr_note :: "string \<Rightarrow> error + nat"
  get_file_content :: "string \<Rightarrow> string \<Rightarrow> error + string option"
  create_mr_discussion :: "string \<Rightarrow> string \<Rightarrow> json \<Rightarrow> json \<times> json \<times> json \<Rightarrow> nat"
  update_mr_note :: "nat \<Rightarrow> string \<Rightarrow> error + unit"

text \<open>
  The requests of a pass that change the store, each with its outcome, in the order they
  are sent.  A computation yields the requests it has sent and either a value or the
  exception that ends it.
\<close>

datatype call =
    DeleteNote nat nat
  | CreateNote string "error + nat"
  | CreateDiscussion string string json "json \<times> json \<times> json" nat
  | UpdateNote nat string "error + unit"

type_synonym 'a io = "call list \<times> (error + 'a)"

definition io_return :: "'a \<Rightarrow> 'a io" where
  "io_return x = ([], Inr x)"

definition io_bind :: "'a io \<Rightarrow> ('a \<Rightarrow> 'b io) \<Rightarrow> 'b io" where
  "io_bind m f =
     (case m of
        (cs, Inl e) \<Rightarrow> (cs, Inl e)
      | (cs, Inr x) \<Rightarrow> (case f x of (cs', r) \<Rightarrow> (cs @ cs', r)))"

definition io_read :: "error + 'a \<Rightarrow> 'a io" where
  "io_read answer = ([], answer)"

definition io_request :: "call \<Rightarrow> error + 'a \<Rightarrow> 'a io" where
  "io_request c answer = ([c], answer)"

text \<open>
  The clean-up loop of \<open>main\<close>:
  \<^verbatim>\<open>
  for comment in existing_ai_comments:
      gitlab.delete_mr_note(MR_IID, comment["note_id"])
      deleted_count += 1
  \<close>
\<close>

fun delete_existing :: "gitlab \<Rightarrow> existing_comment list \<Rightarrow> nat \<Rightarrow> nat io" where
  "delete_existing gitlab [] deleted_count = io_return deleted_count"
| "delete_existing gitlab (comment # rest) deleted_count =
     io_bind
       (io_request
          (DeleteNote (ec_note_id comment) (delete_mr_note gitlab (ec_note_id comment)))
          (Inr ()))
       (\<lambda>response. delete_existing gitlab rest (deleted_count + 1))"

definition placeholder :: string where
  "placeholder =
     ''## RejPAL'' @ [newline, newline] @ [CHR 0xE2, CHR 0x8F, CHR 0xB3] @ '' Prob''
     @ [CHR 0xC3, CHR 0xAD] @ ''h'' @ [CHR 0xC3, CHR 0xA1] @ '' anal'' @ [CHR 0xC3, CHR 0xBD]
     @ ''za...''"

text \<open>
  Finding or creating the summary note, in \<open>main\<close>:
  \<^verbatim>\<open>
  summary_note_id = find_existing_summary_note(notes)
  if not summary_note_id:
      result = gitlab.create_mr_note(MR_IID, placeholder)
      summary_note_id = result.get("id")
  \<close>
  The condition holds for None and for the identifier 0.
\<close>

definition ensure_summary_note :: "gitlab \<Rightarrow> mr_note list \<Rightarrow> nat io" where
  "ensure_summary_note gitlab notes =
     (let create = io_request (CreateNote placeholder (create_mr_note gitlab placeholder))
                     (create_mr_note gitlab placeholder)
      in case find_existing_summary_note notes of
           None \<Rightarrow> create
         | Some summary_note_id \<Rightarrow>
             if summary_note_id = 0 then create else io_return summary_note_id)"

text \<open>
  The loop over the comments of one file.  \<open>format_comment\<close> runs before the request is
  sent; an exception it raises ends the pass.
\<close>

fun publish_comments ::
  "(json \<Rightarrow> string) \<Rightarrow> gitlab \<Rightarrow> string \<Rightarrow> json \<times> json \<times> json \<Rightarrow> pydict list \<Rightarrow> nat
     \<Rightarrow> nat io" where
  "publish_comments py_repr gitlab file_path refs [] total_comments = io_return total_comments"
| "publish_comments py_repr gitlab file_path refs (comment # rest) total_comments =
     (let line = dict_get comment ''line'' JNull
      in io_bind (io_read (format_comment py_repr comment)) (\<lambda>body.
         io_bind
           (io_request
              (CreateDiscussion body file_path line refs
                 (create_mr_discussion gitlab body file_path line refs))
              (Inr ()))
           (\<lambda>response.
              publish_comments py_repr gitlab file_path refs rest (total_comments + 1))))"

text \<open>
  The loop over the changed files, on the pair of \<open>reviewed_files\<close> and
  \<open>total_comments\<close>.
\<close>

fun review_changes ::
  "(json \<Rightarrow> string) \<Rightarrow> gitlab \<Rightarrow> ai_client \<Rightarrow> string list \<Rightarrow> string set \<Rightarrow> string
     \<Rightarrow> string \<Rightarrow> json \<times> json \<times> json \<Rightarrow> change list \<Rightarrow> nat \<times> nat \<Rightarrow> (nat \<times> nat) io" where
  "review_changes py_repr gitlab ai_client patterns extensions rules source_branch refs []
       counters = io_return counters"
| "review_changes py_repr gitlab ai_client patterns extensions rules source_branch refs
       (change # rest) (reviewed_files, total_comments) =
     (let file_path = change_new_path change;
          continue = review_changes py_repr gitlab ai_client patterns extensions rules
                       source_branch refs rest
      in if \<not> should_review_file patterns extensions file_path then
           continue (reviewed_files, total_comments)
         else if change_deleted_file change then
           continue (reviewed_files, total_comments)
         else
           io_bind (io_read (parse_diff_for_new_lines (change_diff change))) (\<lambda>changed_lines.
             if changed_lines = [] then continue (reviewed_files + 1, total_comments)
             else
               io_bind (io_read (get_file_content gitlab file_path source_branch))
                 (\<lambda>file_content.
                   case file_content of
                     None \<Rightarrow> continue (reviewed_files + 1, total_comments)
                   | Some content \<Rightarrow>
                       if content = [] then continue (reviewed_files + 1, total_comments)
                       else
                         io_bind
                           (io_read (analyze_with_ai ai_client file_path content (change_diff change)
                                       changed_lines rules))
                           (\<lambda>comments.
                             io_bind
                               (publish_comments py_repr gitlab file_path refs comments
                                  total_comments)
                               (\<lambda>total. continue (reviewed_files + 1, total))))))"

text \<open>The text of the summary note, with the three counters.\<close>

definition verdict_line :: "nat \<Rightarrow> string" where
  "verdict_line total_comments =
     (if total_comments = 0
      then [CHR 0xE2, CHR 0x9C, CHR 0xA8] @ '' '' @ [CHR 0xC5, CHR 0xBD, CHR 0xC3, CHR 0xA1]
           @ ''dn'' @ [CHR 0xC3, CHR 0xA9] @ '' v'' @ [CHR 0xC3, CHR 0xBD] @ ''znamn''
           @ [CHR 0xC3, CHR 0xA9] @ '' probl'' @ [CHR 0xC3, CHR 0xA9] @ ''my.''
      else [CHR 0xF0, CHR 0x9F, CHR 0x91, CHR 0x86] @ '' Viz inline koment''
           @ [CHR 0xC3, CHR 0xA1, CHR 0xC5, CHR 0x99] @ ''e.'')"

definition deleted_row :: "nat \<Rightarrow> string" where
  "deleted_row deleted_count =
     ''| Smaz'' @ [CHR 0xC3, CHR 0xA1] @ ''no star'' @ [CHR 0xC3, CHR 0xBD] @ ''ch | ''
     @ show_nat deleted_count @ '' |''"

definition summary_text :: "nat \<Rightarrow> nat \<Rightarrow> nat \<Rightarrow> string" where
  "summary_text reviewed_files total_comments deleted_count =
     concat (map (\<lambda>l. l @ [newline])
       [''## RejPAL'',
        [],
        ''| Metrika | Hodnota |'',
        ''|---------|---------|'',
        ''| Zkontrolov'' @ [CHR 0xC3, CHR 0xA1] @ ''no soubor'' @ [CHR 0xC5, CHR 0xAF] @ '' | ''
          @ show_nat reviewed_files @ '' |'',
        ''| P'' @ [CHR 0xC5, CHR 0x99] @ ''ipom'' @ [CHR 0xC3, CHR 0xAD] @ ''nek | ''
          @ show_nat total_comments @ '' |'',
        deleted_row deleted_count,
        [],
        verdict_line total_comments,
        [],
        ''<sub>Generov'' @ [CHR 0xC3, CHR 0xA1] @ ''no automaticky</sub>''])"

record report =
  reviewed_files :: nat
  total_comments :: nat
  deleted_count :: nat

text \<open>
  \<open>main\<close>, from the first request on (the configuration has been read and found
  complete): the merge request and its changes are fetched, the old comments deleted, the
  summary note found or created, the files reviewed, the summary note updated.
\<close>

definition main ::
  "(json \<Rightarrow> string) \<Rightarrow> gitlab \<Rightarrow> ai_client \<Rightarrow> string list \<Rightarrow> string set \<Rightarrow> string
     \<Rightarrow> report io" where
  "main py_repr gitlab ai_client patterns extensions rules =
     io_bind (io_read (get_mr_info gitlab)) (\<lambda>source_branch.
     io_bind (io_read (get_mr_changes gitlab)) (\<lambda>mr_changes.
     io_bind (io_read (get_mr_discussions gitlab)) (\<lambda>discussions.
     io_bind (delete_existing gitlab (get_existing_ai_comments discussions) 0)
       (\<lambda>deleted.
     io_bind (io_read (get_mr_notes gitlab)) (\<lambda>notes.
     io_bind (ensure_summary_note gitlab notes) (\<lambda>summary_note_id.
     io_bind
       (review_changes py_repr gitlab ai_client patterns extensions rules source_branch
          (dict_get (diff_refs mr_changes) ''base_sha'' JNull,
           dict_get (diff_refs mr_changes) ''head_sha'' JNull,
           dict_get (diff_refs mr_changes) ''start_sha'' JNull)
          (changes mr_changes) (0, 0))
       (\<lambda>(reviewed, total).
     io_bind
       (io_request
          (UpdateNote summary_note_id (summary_text reviewed total deleted)
             (update_mr_note gitlab summary_note_id (summary_text reviewed total deleted)))
          (update_mr_note gitlab summary_note_id (summary_text reviewed total deleted)))
       (\<lambda>updated.
     io_return \<lparr>reviewed_files = reviewed, total_comments = total,
                 deleted_count = deleted\<rparr>))))))))"

section \<open>Vocabulary of the statements\<close>

text \<open>
  The kinds of line the mapper tells apart, named after the branch of the loop that
  handles them.  A header is malformed when the extraction of its start raises.
\<close>

definition valid_header :: "string \<Rightarrow> bool" where
  "valid_header line =
     (startswith line ''@@'' \<and> (case hunk_start line of Inl e \<Rightarrow> False | Inr start \<Rightarrow> True))"

definition malformed_header :: "string \<Rightarrow> bool" where
  "malformed_header line =
     (startswith line ''@@'' \<and> (case hunk_start line of Inl e \<Rightarrow> True | Inr start \<Rightarrow> False))"

definition is_added :: "string \<Rightarrow> bool" where
  "is_added line = (startswith line ''+'' \<and> \<not> startswith line ''+++'')"

definition is_removed :: "string \<Rightarrow> bool" where
  "is_removed line = (startswith line ''-'' \<and> \<not> startswith line ''---'')"

definition advances :: "string \<Rightarrow> bool" where
  "advances line =
     (\<not> startswith line ''@@'' \<and> \<not> is_added line \<and> \<not> is_removed line
      \<and> \<not> startswith line [backslash])"

text \<open>
  A unified diff by its structure: hunks with the start lines of their header and a body
  of context, added and removed lines and end-of-file markers.  \<open>render_diff\<close> writes
  the text, every line closed by a line break; \<open>new_file_positions\<close> are the positions in
  the new file of the added lines, as the format defines them.
\<close>

datatype diff_line = Context string | Added string | Removed string | NoNewlineMarker

datatype hunk = Hunk (hunk_old_start: nat) (hunk_new_start: nat) (hunk_body: "diff_line list")

fun in_old :: "diff_line \<Rightarrow> bool" where
  "in_old (Context s) = True"
| "in_old (Removed s) = True"
| "in_old l = False"

fun in_new :: "diff_line \<Rightarrow> bool" where
  "in_new (Context s) = True"
| "in_new (Added s) = True"
| "in_new l = False"

definition old_count :: "hunk \<Rightarrow> nat" where
  "old_count h = length (filter in_old (hunk_body h))"

definition new_count :: "hunk \<Rightarrow> nat" where
  "new_count h = length (filter in_new (hunk_body h))"

fun render_line :: "diff_line \<Rightarrow> string" where
  "render_line (Context s) = '' '' @ s"
| "render_line (Added s) = ''+'' @ s"
| "render_line (Removed s) = ''-'' @ s"
| "render_line NoNewlineMarker = backslash # '' No newline at end of file''"

definition render_header :: "hunk \<Rightarrow> string" where
  "render_header h =
     ''@@ -'' @ show_nat (hunk_old_start h) @ '','' @ show_nat (old_count h)
     @ '' +'' @ show_nat (hunk_new_start h) @ '','' @ show_nat (new_count h) @ '' @@''"

definition render_hunk :: "hunk \<Rightarrow> string list" where
  "render_hunk h = render_header h # map render_line (hunk_body h)"

definition render_diff :: "hunk list \<Rightarrow> string" where
  "render_diff hs = concat (map (\<lambda>l. l @ [newline]) (concat (map render_hunk hs)))"

fun added_positions :: "nat \<Rightarrow> diff_line list \<Rightarrow> nat list" where
  "added_positions n [] = []"
| "added_positions n (Context s # rest) = added_positions (n + 1) rest"
| "added_positions n (Added s # rest) = n # added_positions (n + 1) rest"
| "added_positions n (Removed s # rest) = added_positions n rest"
| "added_positions n (NoNewlineMarker # rest) = added_positions n rest"

definition new_file_positions :: "hunk list \<Rightarrow> nat list" where
  "new_file_positions hs = concat (map (\<lambda>h. added_positions (hunk_new_start h) (hunk_body h)) hs)"

fun line_content :: "diff_line \<Rightarrow> string" where
  "line_content (Context s) = s"
| "line_content (Added s) = s"
| "line_content (Removed s) = s"
| "line_content NoNewlineMarker = []"

text \<open>
  Well-formed: no content holds a line break, and the hunks follow one another in the
  new file without overlap.
\<close>

fun hunks_ordered :: "hunk list \<Rightarrow> bool" where
  "hunks_ordered [] = True"
| "hunks_ordered [h] = True"
| "hunks_ordered (h # k # rest) =
     (hunk_new_start h + new_count h \<le> hunk_new_start k \<and> hunks_ordered (k # rest))"

definition well_formed :: "hunk list \<Rightarrow> bool" where
  "well_formed hs =
     (list_all (\<lambda>h. list_all (\<lambda>l. newline \<notin> set (line_content l)) (hunk_body h)) hs \<and> hunks_ordered hs)"

text \<open>
  A body line is unambiguous when its first characters cannot be taken for a file header:
  the content of an added line does not begin with two plus signs, that of a removed line
  not with two dashes.
\<close>

fun unambiguous :: "diff_line \<Rightarrow> bool" where
  "unambiguous (Added s) = (\<not> startswith s ''++'')"
| "unambiguous (Removed s) = (\<not> startswith s ''--'')"
| "unambiguous l = True"

text \<open>
  The start line of a hunk is written with no more digits than \<open>int\<close> converts.
\<close>

definition within_digit_limit :: "hunk \<Rightarrow> bool" where
  "within_digit_limit h = (length (show_nat (hunk_new_start h)) \<le> int_max_str_digits)"

text \<open>Strings of ASCII characters, and white space among them.\<close>

definition ascii :: "string \<Rightarrow> bool" where
  "ascii s = (\<forall>c\<in>set s. (of_char c :: int) < 128)"

definition is_space :: "char \<Rightarrow> bool" where
  "is_space c = unicode_space (of_char c)"

text \<open>A non-empty run of decimal digits.\<close>

definition digit_string :: "string \<Rightarrow> bool" where
  "digit_string s = (s \<noteq> [] \<and> list_all is_digit s)"

text \<open>Vocabulary for the requests of a pass.\<close>

fun is_create_note :: "call \<Rightarrow> bool" where
  "is_create_note (CreateNote body answer) = True"
| "is_create_note c = False"


text \<open>
  Modelled from the spec: the change-tracking store, which the program reaches only
  through HTTP requests.  The store of one review unit is the list of its notes.  A delete
  request that succeeds (a status below 400) removes the note; a request that creates a
  note adds a note without a position, under the identifier the service answers with; a
  request that creates a positioned comment adds a note with that position under an
  identifier not yet in use; an update request that succeeds replaces the body of the
  note.  A request that fails changes nothing.
\<close>

definition fresh_id :: "mr_note list \<Rightarrow> nat" where
  "fresh_id store = Suc (foldr max (map note_id store) 0)"

fun apply_call :: "call \<Rightarrow> mr_note list \<Rightarrow> mr_note list" where
  "apply_call (DeleteNote i status) store =
     (if status < 400 then filter (\<lambda>n. note_id n \<noteq> i) store else store)"
| "apply_call (CreateNote note_text answer) store =
     (case answer of
        Inl e \<Rightarrow> store
      | Inr i \<Rightarrow> store @ [\<lparr>note_id = i, note_body = note_text, note_position = None\<rparr>])"
| "apply_call (CreateDiscussion note_text path line refs status) store =
     (if status < 400
      then store @ [\<lparr>note_id = fresh_id store, note_body = note_text,
                     note_position = Some [(''new_path'', JStr path), (''new_line'', line)]\<rparr>]
      else store)"
| "apply_call (UpdateNote i note_text answer) store =
     (case answer of
        Inl e \<Rightarrow> store
      | Inr u \<Rightarrow> map (\<lambda>n. if note_id n = i then n\<lparr>note_body := note_text\<rparr> else n) store)"

definition apply_calls :: "call list \<Rightarrow> mr_note list \<Rightarrow> mr_note list" where
  "apply_calls calls store = foldl (\<lambda>st c. apply_call c st) store calls"







text \<open>
  A request that comes from the review of one changed file: the positioned comment for a
  finding that \<open>analyze_with_ai\<close> returned for the changed lines of that file.
\<close>

definition published_from ::
  "(json \<Rightarrow> string) \<Rightarrow> gitlab \<Rightarrow> ai_client \<Rightarrow> string \<Rightarrow> change \<Rightarrow> call \<Rightarrow> bool" where
  "published_from py_repr gitlab ai_client rules ch c =
     (\<exists>changed_lines file_content comments comment note_text refs.
        parse_diff_for_new_lines (change_diff ch) = Inr changed_lines
        \<and> analyze_with_ai ai_client (change_new_path ch) file_content (change_diff ch)
              changed_lines rules = Inr comments
        \<and> comment \<in> set comments
        \<and> format_comment py_repr comment = Inr note_text
        \<and> c = CreateDiscussion note_text (change_new_path ch)
                (dict_get comment ''line'' JNull) refs
                (create_mr_discussion gitlab note_text (change_new_path ch)
                   (dict_get comment ''line'' JNull) refs))"

text \<open>
  An environment to run the pass in: one changed file with the diff of the
  specification's example, one old comment of the tool and one of a person, an advisory
  service that answers with four items (a finding on an added line, a finding on a
  context line, a finding without a message, a number).  The status of the delete
  requests and the listed notes are left open.
\<close>

definition example_diff :: string where
  "example_diff = ''@@ -1,2 +10,3 @@\<newline> context\<newline>+added1\<newline>-removed\<newline>+added2\<newline>''"

definition example_findings :: "json list" where
  "example_findings =
     [JObject [(''line'', JInt 11), (''severity'', JStr ''warning''), (''message'', JStr ''Name it'')],
      JObject [(''line'', JInt 10), (''severity'', JStr ''critical''), (''message'', JStr ''Old line'')],
      JObject [(''line'', JInt 12), (''severity'', JStr ''warning''), (''message'', JStr [])],
      JInt 5]"

definition example_ai :: ai_client where
  "example_ai file_path file_content d changed_lines rules = Inr (JArray example_findings)"

definition old_comment :: mr_note where
  "old_comment =
     \<lparr>note_id = 7, note_body = glyph_warning @ '' **RejPAL**: Old finding'',
      note_position = Some [(''new_path'', JStr ''src/app.go''), (''new_line'', JInt 3)]\<rparr>"

definition human_note :: mr_note where
  "human_note = \<lparr>note_id = 8, note_body = ''Thanks, fixed.'', note_position = None\<rparr>"

definition example_gitlab :: "nat \<Rightarrow> mr_note list \<Rightarrow> gitlab" where
  "example_gitlab delete_status listed =
     \<lparr>get_mr_info = Inr ''feature'',
      get_mr_changes = Inr
        \<lparr>changes = [\<lparr>change_new_path = ''src/app.go'', change_diff = example_diff,
                      change_deleted_file = False\<rparr>],
         diff_refs = [(''base_sha'', JStr ''b0''), (''head_sha'', JStr ''h0''),
                      (''start_sha'', JStr ''s0'')]\<rparr>,
      get_mr_discussions = Inr
        [\<lparr>discussion_id = ''d1'', discussion_notes = [old_comment, human_note]\<rparr>],
      delete_mr_note = (\<lambda>note_id. delete_status),
      get_mr_notes = Inr listed,
      create_mr_note = (\<lambda>body. Inr 9),
      get_file_content = (\<lambda>file_path ref. Inr (Some ''package main'')),
      create_mr_discussion = (\<lambda>body file_path line refs. 201),
      update_mr_note = (\<lambda>note_id body. Inr ())\<rparr>"


text \<open>
  A stand-in for the rendering of lists and dicts in the example runs; the findings of
  the examples hold none.
\<close>

definition example_repr :: "json \<Rightarrow> string" where
  "example_repr v = ''[...]''"





section \<open>Properties of the diff line mapper\<close>

lemma py_split_not_Nil: "py_split s sep \<noteq> []"
  by (induction s sep rule: py_split.induct) (auto split: list.splits)

lemma py_index_error: "py_index xs i = Inl e \<Longrightarrow> e = IndexError"
  by (simp add: py_index_def split: if_splits)

lemma py_int_error: "py_int s = Inl e \<Longrightarrow> e = ValueError"
  by (simp add: py_int_def Let_def split: if_splits)

lemma hunk_start_error: "hunk_start line = Inl e \<Longrightarrow> e = IndexError \<or> e = ValueError"
  unfolding hunk_start_def Let_def
  by (auto split: sum.splits if_splits dest: py_index_error py_int_error)

lemma handle_line_malformed:
  assumes "startswith line ''@@''" and "hunk_start line = Inl e"
  shows "handle_line st line = Inr st"
proof -
  obtain new_lines cur where st: "st = (new_lines, cur)" by (cases st)
  from assms(2) have "e = IndexError \<or> e = ValueError" by (rule hunk_start_error)
  with assms st show ?thesis by auto
qed

lemma handle_line_valid:
  assumes "startswith line ''@@''" and "hunk_start line = Inr start"
  shows "handle_line (new_lines, cur) line = Inr (new_lines, start)"
  using assms by simp

lemma not_header_if_added: "is_added line \<Longrightarrow> \<not> startswith line ''@@''"
  by (cases line) (auto simp: is_added_def startswith_def)

lemma not_header_if_removed: "is_removed line \<Longrightarrow> \<not> startswith line ''@@''"
  by (cases line) (auto simp: is_removed_def startswith_def)

lemma handle_line_added:
  "is_added line \<Longrightarrow> handle_line (new_lines, cur) line = Inr (new_lines @ [cur], cur + 1)"
  using not_header_if_added [of line] by (simp add: is_added_def)

lemma handle_line_removed:
  "is_removed line \<Longrightarrow> handle_line (new_lines, cur) line = Inr (new_lines, cur)"
  using not_header_if_removed [of line] by (cases line) (auto simp: is_removed_def startswith_def)

lemma handle_line_advances:
  "advances line \<Longrightarrow> handle_line (new_lines, cur) line = Inr (new_lines, cur + 1)"
  by (simp add: advances_def is_added_def is_removed_def)

lemma handle_line_marker:
  "startswith line [backslash] \<Longrightarrow> handle_line (new_lines, cur) line = Inr (new_lines, cur)"
  by (cases line) (auto simp: startswith_def backslash_def)

lemma line_cases:
  "valid_header line \<or> malformed_header line \<or> is_added line \<or> is_removed line
   \<or> advances line \<or> startswith line [backslash]"
  by (auto simp: valid_header_def malformed_header_def advances_def split: sum.splits)

lemma handle_line_total: "\<exists>st'. handle_line st line = Inr st'"
proof (cases st)
  case (Pair new_lines cur)
  show ?thesis
  proof (cases "hunk_start line")
    case (Inl e)
    then have "e = IndexError \<or> e = ValueError" by (rule hunk_start_error)
    with Inl Pair show ?thesis by auto
  next
    case (Inr start)
    with Pair show ?thesis by auto
  qed
qed

lemma handle_line_extends:
  assumes "handle_line (new_lines, cur) line = Inr (new_lines', cur')"
  shows "\<exists>more. new_lines' = new_lines @ more"
  using assms by (auto split: if_splits sum.splits error.splits)

lemma scan_lines_total: "\<exists>st'. scan_lines st ls = Inr st'"
proof (induction ls arbitrary: st)
  case Nil
  show ?case by simp
next
  case (Cons line rest)
  obtain st1 where "handle_line st line = Inr st1" using handle_line_total by blast
  with Cons show ?case by simp
qed

lemma scan_lines_append:
  "scan_lines st (xs @ ys) =
     (case scan_lines st xs of Inl e \<Rightarrow> Inl e | Inr st' \<Rightarrow> scan_lines st' ys)"
  by (induction xs arbitrary: st) (auto split: sum.splits)

lemma scan_lines_extends:
  "scan_lines (new_lines, cur) ls = Inr (new_lines', cur') \<Longrightarrow> \<exists>more. new_lines' = new_lines @ more"
proof (induction ls arbitrary: new_lines cur)
  case Nil
  then show ?case by simp
next
  case (Cons line rest)
  obtain nl1 c1 where h: "handle_line (new_lines, cur) line = Inr (nl1, c1)"
    using handle_line_total [of "(new_lines, cur)" line] by (metis surj_pair)
  then obtain m1 where m1: "nl1 = new_lines @ m1" using handle_line_extends by blast
  from Cons.prems h have "scan_lines (nl1, c1) rest = Inr (new_lines', cur')" by simp
  then obtain m2 where "new_lines' = nl1 @ m2" using Cons.IH by blast
  with m1 show ?case by simp
qed

lemma scan_lines_skip_malformed:
  assumes "startswith line ''@@''" and "hunk_start line = Inl e"
  shows "scan_lines st (before @ line # after) = scan_lines st (before @ after)"
proof -
  obtain st1 where st1: "scan_lines st before = Inr st1" using scan_lines_total by blast
  have "handle_line st1 line = Inr st1" using assms by (rule handle_line_malformed)
  with st1 show ?thesis by (simp add: scan_lines_append)
qed

lemma scan_lines_before_first_added:
  assumes "\<forall>l\<in>set before. \<not> is_added l \<and> \<not> valid_header l"
  shows "scan_lines ([], cur) before = Inr ([], cur + int (length (filter advances before)))"
  using assms
proof (induction before arbitrary: cur)
  case Nil
  show ?case by simp
next
  case (Cons l rest)
  then have l: "\<not> is_added l" "\<not> valid_header l" by simp_all
  from line_cases [of l] l
  consider "malformed_header l" | "is_removed l" | "advances l" | "startswith l [backslash]"
    by blast
  then show ?case
  proof cases
    case 1
    then obtain e where "startswith l ''@@''" "hunk_start l = Inl e"
      by (auto simp: malformed_header_def split: sum.splits)
    then have "handle_line ([], cur) l = Inr ([], cur)" by (rule handle_line_malformed)
    moreover have "\<not> advances l" using 1 by (simp add: malformed_header_def advances_def)
    ultimately show ?thesis using Cons by simp
  next
    case 2
    then have "handle_line ([], cur) l = Inr ([], cur)" by (rule handle_line_removed)
    moreover have "\<not> advances l" using 2 by (simp add: advances_def)
    ultimately show ?thesis using Cons by simp
  next
    case 3
    then have "handle_line ([], cur) l = Inr ([], cur + 1)" by (rule handle_line_advances)
    with 3 Cons show ?thesis by simp
  next
    case 4
    then have "handle_line ([], cur) l = Inr ([], cur)" by (rule handle_line_marker)
    moreover have "\<not> advances l" using 4 by (simp add: advances_def)
    ultimately show ?thesis using Cons by simp
  qed
qed

text \<open>
  The extraction of the start on headers with characters beyond ASCII digits and blanks:
  a unit separator after the number is removed by \<open>strip\<close> at the end of the field but
  rejected by \<open>int\<close> before the comma; a no-break space is removed by \<open>strip\<close>; an
  Arabic-Indic digit counts as a digit.
\<close>

lemma hunk_start_examples:
  "hunk_start (''@@ -1 +5'' @ [CHR 0x1F] @ '',2 @@'') = Inl ValueError"
  "hunk_start (''@@ -1 +5,2'' @ [CHR 0x1F] @ ''@@'') = Inr 5"
  "hunk_start (''@@ -1 +5'' @ [CHR 0xC2, CHR 0xA0] @ ''@@'') = Inr 5"
  "hunk_start (''@@ -1 +'' @ [CHR 0xD9, CHR 0xA5] @ '' @@'') = Inr 5"
  "parse_diff_for_new_lines (''@@ -1 +5'' @ [CHR 0xC2, CHR 0xA0] @ ''@@\<newline>+a'') = Inr [5]"
  by code_simp+

text \<open>
  C10: \<open>parse_diff_for_new_lines\<close> returns a list for every input string and never
  raises: the extraction of the start of a hunk header can only raise IndexError or
  ValueError, and both are caught.  The empty string and the placeholder of a binary diff
  give the empty list.
\<close>

theorem parse_diff_total:
  "(\<exists>new_lines. parse_diff_for_new_lines diff = Inr new_lines)
   \<and> (case hunk_start line of Inl e \<Rightarrow> e = IndexError \<or> e = ValueError | Inr start \<Rightarrow> True)
   \<and> parse_diff_for_new_lines [] = Inr []
   \<and> parse_diff_for_new_lines ''Binary files a/logo.png and b/logo.png differ'' = Inr []"
proof -
  obtain st where "scan_lines ([], 0) (py_split diff [newline]) = Inr st"
    using scan_lines_total by blast
  then have "\<exists>new_lines. parse_diff_for_new_lines diff = Inr new_lines"
    by (cases st) (simp add: parse_diff_for_new_lines_def)
  moreover have "case hunk_start line of Inl e \<Rightarrow> e = IndexError \<or> e = ValueError | Inr start \<Rightarrow> True"
    using hunk_start_error [of line] by (simp split: sum.splits)
  moreover have "parse_diff_for_new_lines [] = Inr []"
    by code_simp
  moreover have "parse_diff_for_new_lines ''Binary files a/logo.png and b/logo.png differ'' = Inr []"
    by code_simp
  ultimately show ?thesis by blast
qed

text \<open>
  C2: on the diff of the example the mapper returns the lines 11 and 12.  The header sets
  the cursor to 10, the context line moves it to 11, the first added line records 11 and
  moves it to 12, the removed line leaves list and cursor alone, the second added line
  records 12.
\<close>

theorem parse_diff_example:
  "parse_diff_for_new_lines
     ''@@ -1,2 +10,3 @@\<newline> context\<newline>+added1\<newline>-removed\<newline>+added2\<newline>''
   = Inr [11, 12]
   \<and> py_split ''@@ -1,2 +10,3 @@\<newline> context\<newline>+added1\<newline>-removed\<newline>+added2\<newline>'' [newline]
     = [''@@ -1,2 +10,3 @@'', '' context'', ''+added1'', ''-removed'', ''+added2'', []]
   \<and> handle_line ([], 0) ''@@ -1,2 +10,3 @@'' = Inr ([], 10)
   \<and> handle_line ([], 10) '' context'' = Inr ([], 11)
   \<and> handle_line ([], 11) ''+added1'' = Inr ([11], 12)
   \<and> handle_line ([11], 12) ''-removed'' = Inr ([11], 12)
   \<and> handle_line ([11], 12) ''+added2'' = Inr ([11, 12], 13)"
  by code_simp

text \<open>
  C3, as amended: at a malformed hunk header no error is raised and the list and the cursor
  stay as they are, so the result of the whole diff is the result of the diff without
  that line.  The lines after the header are handled as always: an added line among them
  is recorded, at the cursor the header left unchanged.
\<close>

theorem malformed_header_skipped:
  assumes "py_split diff [newline] = before @ line # after"
    and "malformed_header line"
  shows "(\<exists>st. scan_lines ([], 0) before = Inr st \<and> scan_lines ([], 0) (before @ [line]) = Inr st)
    \<and> parse_diff_for_new_lines diff =
        (case scan_lines ([], 0) (before @ after) of
           Inl e \<Rightarrow> Inl e
         | Inr (new_lines, current_new_line) \<Rightarrow> Inr new_lines)
    \<and> (\<exists>new_lines. parse_diff_for_new_lines diff = Inr new_lines)"
proof -
  from assms(2) obtain e where hdr: "startswith line ''@@''" and bad: "hunk_start line = Inl e"
    by (auto simp: malformed_header_def split: sum.splits)
  obtain st where st: "scan_lines ([], 0) before = Inr st" using scan_lines_total by blast
  have "handle_line st line = Inr st" using hdr bad by (rule handle_line_malformed)
  with st have one: "scan_lines ([], 0) (before @ [line]) = Inr st"
    by (simp add: scan_lines_append)
  have skip: "scan_lines ([], 0) (before @ line # after) = scan_lines ([], 0) (before @ after)"
    using hdr bad by (rule scan_lines_skip_malformed)
  have two: "parse_diff_for_new_lines diff =
        (case scan_lines ([], 0) (before @ after) of
           Inl e \<Rightarrow> Inl e
         | Inr (new_lines, current_new_line) \<Rightarrow> Inr new_lines)"
    by (simp add: parse_diff_for_new_lines_def assms(1) skip)
  obtain st2 where "scan_lines ([], 0) (before @ after) = Inr st2"
    using scan_lines_total by blast
  with two have three: "\<exists>new_lines. parse_diff_for_new_lines diff = Inr new_lines"
    by (cases st2) simp
  from st one two three show ?thesis by blast
qed

text \<open>
  The theorem at a diff with a valid header, an added line, a malformed header and a
  second added line: both added lines are recorded.
\<close>

theorem malformed_header_skipped_witness:
  "py_split ''@@ -1 +5 @@\<newline>+a\<newline>@@ garbage @@\<newline>+b'' [newline]
     = [''@@ -1 +5 @@'', ''+a''] @ ''@@ garbage @@'' # [''+b'']
   \<and> malformed_header ''@@ garbage @@''
   \<and> parse_diff_for_new_lines ''@@ -1 +5 @@\<newline>+a\<newline>@@ garbage @@\<newline>+b'' = Inr [5, 6]"
proof -
  have split: "py_split ''@@ -1 +5 @@\<newline>+a\<newline>@@ garbage @@\<newline>+b'' [newline]
     = [''@@ -1 +5 @@'', ''+a''] @ ''@@ garbage @@'' # [''+b'']"
    by code_simp
  have bad: "malformed_header ''@@ garbage @@''"
    by code_simp
  have rest: "scan_lines ([], 0) ([''@@ -1 +5 @@'', ''+a''] @ [''+b'']) = Inr ([5, 6], 7)"
    by code_simp
  from malformed_header_skipped [OF split bad] rest
  have "parse_diff_for_new_lines ''@@ -1 +5 @@\<newline>+a\<newline>@@ garbage @@\<newline>+b'' = Inr [5, 6]"
    by simp
  with split bad show ?thesis by blast
qed

text \<open>
  Against C3 as first stated (no line after a malformed header is recorded until a valid
  header comes): an added line right after a malformed header is recorded, as line 0.
\<close>

theorem malformed_header_counterexample:
  "malformed_header ''@@ garbage @@''
   \<and> parse_diff_for_new_lines ''@@ garbage @@\<newline>+x'' = Inr [0]"
  by code_simp

text \<open>
  C9, as amended: an added line that comes before any valid hunk header and before any
  other added line is recorded at the value the cursor has reached, which is the number
  of earlier lines that advance the cursor (lines that are neither \<open>@@\<close> lines, nor
  removed lines, nor backslash lines).  It is recorded as 0 when no earlier line advances the
  cursor, so the returned list can contain 0.
\<close>

theorem added_before_header:
  assumes "py_split diff [newline] = before @ line # after"
    and "is_added line"
    and "\<forall>l\<in>set before. \<not> is_added l \<and> \<not> valid_header l"
  shows "\<exists>later. parse_diff_for_new_lines diff
           = Inr (int (length (filter advances before)) # later)"
proof -
  let ?n = "int (length (filter advances before))"
  have "scan_lines ([], 0) before = Inr ([], 0 + ?n)"
    using assms(3) by (rule scan_lines_before_first_added)
  moreover have "handle_line ([], ?n) line = Inr ([] @ [?n], ?n + 1)"
    using assms(2) by (rule handle_line_added)
  ultimately have upto: "scan_lines ([], 0) (before @ line # after) = scan_lines ([?n], ?n + 1) after"
    by (simp add: scan_lines_append)
  obtain new_lines cur where fin: "scan_lines ([?n], ?n + 1) after = Inr (new_lines, cur)"
    using scan_lines_total [of "([?n], ?n + 1)" after] by (metis surj_pair)
  then obtain later where "new_lines = [?n] @ later" using scan_lines_extends by blast
  with fin upto assms(1) show ?thesis by (simp add: parse_diff_for_new_lines_def)
qed

text \<open>
  The theorem at a diff that opens with a removed line: the first added line is recorded
  as line 0.
\<close>

theorem added_before_header_witness:
  "py_split ''-gone\<newline>+a\<newline>+b'' [newline] = [''-gone''] @ ''+a'' # [''+b'']
   \<and> is_added ''+a''
   \<and> \<not> is_added ''-gone'' \<and> \<not> valid_header ''-gone''
   \<and> (\<exists>later. parse_diff_for_new_lines ''-gone\<newline>+a\<newline>+b'' = Inr (0 # later))"
proof -
  have split: "py_split ''-gone\<newline>+a\<newline>+b'' [newline] = [''-gone''] @ ''+a'' # [''+b'']"
    by code_simp
  have added: "is_added ''+a''" by code_simp
  have before: "\<not> is_added ''-gone'' \<and> \<not> valid_header ''-gone''" by code_simp
  then have all: "\<forall>l\<in>set [''-gone'']. \<not> is_added l \<and> \<not> valid_header l" by simp
  have none: "int (length (filter advances [''-gone''])) = 0" by code_simp
  from added_before_header [OF split added all] none
  have "\<exists>later. parse_diff_for_new_lines ''-gone\<newline>+a\<newline>+b'' = Inr (0 # later)" by simp
  with split added before show ?thesis by blast
qed

text \<open>
  Against C9 as first stated (the first such line is always recorded as line 0): after
  one line of other text the added line is recorded as line 1, and the list does not
  contain 0.
\<close>

theorem added_before_header_counterexample:
  "py_split ''x\<newline>+a'' [newline] = [''x'', ''+a'']
   \<and> \<not> valid_header ''x'' \<and> is_added ''+a''
   \<and> parse_diff_for_new_lines ''x\<newline>+a'' = Inr [1]"
  by code_simp

text \<open>
  C1 fails on the code: a removed line whose content begins with two dashes is written
  \<open>---x\<close> in the diff, the mapper takes it for a file header and lets it advance the
  cursor as a context line would.  In the well-formed diff below the added line is line
  1 of the new file, and the mapper returns line 2, which is the context line.
\<close>

theorem removed_dashes_shift:
  "well_formed [Hunk 1 1 [Removed ''--x'', Added ''y'', Context ''keep'']]
   \<and> render_diff [Hunk 1 1 [Removed ''--x'', Added ''y'', Context ''keep'']]
       = ''@@ -1,2 +1,2 @@\<newline>---x\<newline>+y\<newline> keep\<newline>''
   \<and> new_file_positions [Hunk 1 1 [Removed ''--x'', Added ''y'', Context ''keep'']] = [1]
   \<and> parse_diff_for_new_lines ''@@ -1,2 +1,2 @@\<newline>---x\<newline>+y\<newline> keep\<newline>'' = Inr [2]"
  by code_simp

text \<open>
  Apart from such lines the mapper agrees with the format: for a well-formed diff whose
  body lines are unambiguous it returns the positions of the added lines in the new file,
  in strictly increasing order.
\<close>

lemma digit_char_is_digit: "d < 10 \<Longrightarrow> is_digit (digit_char d)"
  by (simp add: is_digit_def digit_char_def Let_def)

lemma digit_val_digit_char: "d < 10 \<Longrightarrow> digit_val (digit_char d) = d"
  by (simp add: digit_val_def digit_char_def)

lemma show_nat_small: "n < 10 \<Longrightarrow> show_nat n = [digit_char n]"
  by (subst show_nat.simps) simp

lemma show_nat_large:
  "\<not> n < 10 \<Longrightarrow> show_nat n = show_nat (n div 10) @ [digit_char (n mod 10)]"
  by (subst show_nat.simps) simp

lemma show_nat_digits: "c \<in> set (show_nat n) \<Longrightarrow> is_digit c"
proof (induction n rule: show_nat.induct)
  case (1 n)
  show ?case
  proof (cases "n < 10")
    case True
    with "1.prems" show ?thesis by (simp add: show_nat_small digit_char_is_digit)
  next
    case False
    with "1.prems" have "c \<in> set (show_nat (n div 10)) \<or> c = digit_char (n mod 10)"
      by (auto simp: show_nat_large)
    with False "1.IH" show ?thesis by (auto simp: digit_char_is_digit)
  qed
qed

lemma show_nat_not_Nil: "show_nat n \<noteq> []"
  by (cases "n < 10") (simp_all add: show_nat_small show_nat_large)

lemma digits_value_snoc: "digits_value (ds @ [c]) = 10 * digits_value ds + digit_val c"
  by (simp add: digits_value_def)

lemma digits_value_show_nat: "digits_value (show_nat n) = n"
proof (induction n rule: show_nat.induct)
  case (1 n)
  show ?case
  proof (cases "n < 10")
    case True
    then show ?thesis by (simp add: show_nat_small digits_value_def digit_val_digit_char)
  next
    case False
    with "1.IH" show ?thesis
      by (simp add: show_nat_large digits_value_snoc digit_val_digit_char)
  qed
qed

lemma digits_ok_all_digits:
  "ds \<noteq> [] \<Longrightarrow> \<forall>c\<in>set ds. is_digit c \<Longrightarrow> digits_ok ds"
proof (induction ds rule: digits_ok.induct)
  case (3 c d r)
  then have "d \<noteq> CHR ''_''" by (auto simp: is_digit_def)
  with 3 show ?case by simp
qed simp_all

lemma is_digit_facts:
  assumes "is_digit c"
  shows "\<not> c_space c" "c \<noteq> CHR ''_''" "c \<noteq> CHR ''-''" "c \<noteq> CHR ''+''" "c \<noteq> CHR '',''"
    "c \<noteq> CHR ''@''" "c \<noteq> newline" "c \<noteq> CHR '' ''" "(of_char c :: int) < 128"
    "\<not> unicode_space (of_char c)"
  using assms
  by (auto simp: is_digit_def c_space_def unicode_space_def newline_def Let_def
        of_nat_of_char [where ?'a = int, symmetric])

lemma ascii_simps [simp]:
  "ascii []" "ascii (c # s) = ((of_char c :: int) < 128 \<and> ascii s)"
  "ascii (s @ t) = (ascii s \<and> ascii t)"
  by (auto simp: ascii_def)

lemma ascii_no_continuation: "ascii s \<Longrightarrow> c \<in> set s \<Longrightarrow> \<not> is_continuation c"
  by (auto simp: ascii_def is_continuation_def Let_def)

lemma utf8_chars_ascii: "ascii s \<Longrightarrow> utf8_chars s = map (\<lambda>c. [c]) s"
proof (induction s)
  case Nil
  show ?case by simp
next
  case (Cons c s)
  then have s: "ascii s" by simp
  have "takeWhile is_continuation s = []" "dropWhile is_continuation s = s"
    using ascii_no_continuation [OF s] by (cases s; simp)+
  with Cons.IH [OF s] show ?case by simp
qed

lemma code_point_ascii: "(of_char c :: int) < 128 \<Longrightarrow> code_point [c] = of_char c"
  by (simp add: code_point_def lead_payload_def)

lemma ascii_char_ascii: "(of_char c :: int) < 128 \<Longrightarrow> ascii_char [c] = c"
  by (simp add: ascii_char_def code_point_ascii)

lemma map_ascii_char: "ascii s \<Longrightarrow> map ascii_char (utf8_chars s) = s"
  by (simp add: utf8_chars_ascii ascii_def ascii_char_ascii comp_def map_idI)

lemma concat_singletons: "concat (map (\<lambda>c. [c]) xs) = xs"
  by (induction xs) simp_all

lemma py_strip_ascii:
  assumes "ascii s"
  shows "py_strip s = rev (dropWhile is_space (rev (dropWhile is_space s)))"
proof -
  have eq: "dropWhile space_char (map (\<lambda>c. [c]) t) = map (\<lambda>c. [c]) (dropWhile is_space t)"
    if "ascii t" for t
    using that
    by (induction t) (simp_all add: space_char_def is_space_def code_point_ascii)
  have keep: "ascii (dropWhile is_space t)" if "ascii t" for t
    using that by (induction t) simp_all
  have rev_ascii: "ascii (rev t)" if "ascii t" for t
    using that by (simp add: ascii_def)
  have "py_strip s
          = concat (rev (dropWhile space_char (rev (map (\<lambda>c. [c]) (dropWhile is_space s)))))"
    using assms by (simp add: py_strip_def utf8_chars_ascii eq)
  also have "rev (map (\<lambda>c. [c]) (dropWhile is_space s))
               = map (\<lambda>c. [c]) (rev (dropWhile is_space s))"
    by (simp add: rev_map)
  also have "dropWhile space_char (map (\<lambda>c. [c]) (rev (dropWhile is_space s)))
               = map (\<lambda>c. [c]) (dropWhile is_space (rev (dropWhile is_space s)))"
    using assms by (intro eq rev_ascii keep)
  finally have "py_strip s
      = concat (map (\<lambda>c. [c]) (rev (dropWhile is_space (rev (dropWhile is_space s)))))"
    by (simp only: rev_map)
  then show ?thesis by (simp only: concat_singletons)
qed

lemma py_strip_trailing_space:
  assumes "ascii s" and "s \<noteq> []" and "\<not> is_space (hd s)" and "\<not> is_space (last s)"
  shows "py_strip (s @ '' '') = s"
proof -
  from assms have "dropWhile is_space (s @ '' '') = s @ '' ''" by (cases s) simp_all
  moreover have "is_space CHR '' ''" by (simp add: is_space_def unicode_space_def)
  moreover from assms have "dropWhile is_space (rev s) = rev s"
    by (cases "rev s") (simp_all add: hd_rev)
  moreover from assms(1) have "ascii (s @ '' '')" by simp
  ultimately show ?thesis by (simp add: py_strip_ascii)
qed

lemma py_int_digits:
  assumes ne: "s \<noteq> []" and dig: "\<forall>c\<in>set s. is_digit c"
    and short: "length s \<le> int_max_str_digits"
  shows "py_int s = Inr (int (digits_value s))"
proof -
  from dig have asc: "ascii s" by (simp add: ascii_def is_digit_facts)
  from ne dig have h: "is_digit (hd s)" and l: "is_digit (last s)" by simp_all
  from ne h have front: "dropWhile c_space s = s"
    by (cases s) (simp_all add: is_digit_facts)
  from ne l have behind: "dropWhile c_space (rev s) = rev s"
    by (cases "rev s") (simp_all add: hd_rev is_digit_facts)
  from ne obtain c r where s: "s = c # r" by (cases s) auto
  with h have "c \<noteq> CHR ''-''" "c \<noteq> CHR ''+''" by (simp_all add: is_digit_facts)
  with s have nosign: "\<not> startswith s ''-''" "\<not> startswith s ''+''"
    by (simp_all add: startswith_def)
  have all: "filter is_digit s = s"
    using dig by (simp add: filter_id_conv)
  from map_ascii_char [OF asc] front behind nosign all short digits_ok_all_digits [OF ne dig]
  show ?thesis by (simp add: py_int_def)
qed

lemma py_int_show_nat:
  "length (show_nat n) \<le> int_max_str_digits \<Longrightarrow> py_int (show_nat n) = Inr (int n)"
  using py_int_digits [of "show_nat n"] show_nat_not_Nil [of n] show_nat_digits [of _ n]
  by (simp add: digits_value_show_nat)

lemma py_int_over_limit:
  assumes ne: "s \<noteq> []" and dig: "\<forall>c\<in>set s. is_digit c"
    and long: "int_max_str_digits < length s"
  shows "py_int s = Inl ValueError"
proof -
  from dig have asc: "ascii s" by (simp add: ascii_def is_digit_facts)
  from ne dig have h: "is_digit (hd s)" and l: "is_digit (last s)" by simp_all
  from ne h have front: "dropWhile c_space s = s"
    by (cases s) (simp_all add: is_digit_facts)
  from ne l have behind: "dropWhile c_space (rev s) = rev s"
    by (cases "rev s") (simp_all add: hd_rev is_digit_facts)
  from ne obtain c r where s: "s = c # r" by (cases s) auto
  with h have "c \<noteq> CHR ''-''" "c \<noteq> CHR ''+''" by (simp_all add: is_digit_facts)
  with s have nosign: "\<not> startswith s ''-''" "\<not> startswith s ''+''"
    by (simp_all add: startswith_def)
  have all: "filter is_digit s = s"
    using dig by (simp add: filter_id_conv)
  from map_ascii_char [OF asc] front behind nosign all long
  show ?thesis by (simp add: py_int_def)
qed

lemma py_split_char_absent: "c \<notin> set s \<Longrightarrow> py_split s [c] = [s]"
  by (induction s) auto

lemma py_split_char_first:
  "c \<notin> set a \<Longrightarrow> py_split (a @ c # b) [c] = a # py_split b [c]"
  by (induction a) auto

lemma py_split_at_first:
  "CHR ''@'' \<notin> set a \<Longrightarrow> py_split (a @ ''@@'' @ b) ''@@'' = a # py_split b ''@@''"
  by (induction a) auto

lemma contains_prefix: "prefix sub s \<Longrightarrow> contains s sub"
  by (cases s) auto

lemma contains_append: "contains (a @ sub @ b) sub"
  by (induction a) (auto simp: contains_prefix)

lemma digit_string_show_nat: "digit_string (show_nat n)"
  using show_nat_digits [of _ n] by (simp add: digit_string_def show_nat_not_Nil list_all_iff)

lemma digit_string_avoids:
  assumes "digit_string s"
  shows "CHR ''+'' \<notin> set s" "CHR ''@'' \<notin> set s" "CHR '','' \<notin> set s" "newline \<notin> set s"
proof -
  from assms have dig: "\<And>c. c \<in> set s \<Longrightarrow> is_digit c"
    by (simp add: digit_string_def list_all_iff)
  show "CHR ''+'' \<notin> set s" using dig is_digit_facts(4) by blast
  show "CHR ''@'' \<notin> set s" using dig is_digit_facts(6) by blast
  show "CHR '','' \<notin> set s" using dig is_digit_facts(5) by blast
  show "newline \<notin> set s" using dig is_digit_facts(7) by blast
qed

lemma digit_string_ends:
  assumes "digit_string s"
  shows "\<not> is_space (hd s)" "\<not> is_space (last s)" "s \<noteq> []" "ascii s"
proof -
  from assms show ne: "s \<noteq> []" by (simp add: digit_string_def)
  from assms have dig: "\<And>c. c \<in> set s \<Longrightarrow> is_digit c"
    by (simp add: digit_string_def list_all_iff)
  from ne dig have "is_digit (hd s)" "is_digit (last s)" by simp_all
  then show "\<not> is_space (hd s)" "\<not> is_space (last s)"
    by (simp_all add: is_space_def is_digit_facts)
  from dig show "ascii s" by (simp add: ascii_def is_digit_facts)
qed

lemma hunk_start_header:
  assumes A: "digit_string A" and B: "digit_string B" and C: "digit_string C"
    and D: "digit_string D" and short: "length C \<le> int_max_str_digits"
  shows "hunk_start (''@@ -'' @ A @ '','' @ B @ '' +'' @ C @ '','' @ D @ '' @@'')
           = Inr (int (digits_value C))"
proof -
  define pre where "pre = ''@@ -'' @ A @ '','' @ B @ '' ''"
  define field where "field = C @ '','' @ D"
  define post where "post = field @ '' '' @ ''@@''"
  define header where "header = pre @ CHR ''+'' # post"
  have header: "''@@ -'' @ A @ '','' @ B @ '' +'' @ C @ '','' @ D @ '' @@'' = header"
    by (simp add: header_def pre_def post_def field_def)
  have no_plus_pre: "CHR ''+'' \<notin> set pre"
    using digit_string_avoids(1) [OF A] digit_string_avoids(1) [OF B] by (simp add: pre_def)
  have no_plus_post: "CHR ''+'' \<notin> set post"
    using digit_string_avoids(1) [OF C] digit_string_avoids(1) [OF D]
    by (simp add: post_def field_def)
  have "py_split header ''+'' = pre # py_split post ''+''"
    unfolding header_def using no_plus_pre by (rule py_split_char_first)
  also have "py_split post ''+'' = [post]"
    using no_plus_post by (rule py_split_char_absent)
  finally have s1: "py_index (py_split header ''+'') (Suc 0) = Inr post"
    by (simp add: py_index_def)
  have no_at: "CHR ''@'' \<notin> set (field @ '' '')"
    using digit_string_avoids(2) [OF C] digit_string_avoids(2) [OF D] by (simp add: field_def)
  have "post = (field @ '' '') @ ''@@'' @ []" by (simp add: post_def)
  moreover have "py_split ((field @ '' '') @ ''@@'' @ []) ''@@''
                   = (field @ '' '') # py_split [] ''@@''"
    using no_at by (rule py_split_at_first)
  ultimately have s2: "py_index (py_split post ''@@'') 0 = Inr (field @ '' '')"
    by (simp add: py_index_def)
  have ne: "field \<noteq> []" using digit_string_ends(3) [OF C] by (simp add: field_def)
  have "hd field = hd C" using digit_string_ends(3) [OF C] by (simp add: field_def)
  moreover have "last field = last D" using digit_string_ends(3) [OF D] by (simp add: field_def)
  moreover have asc: "ascii field"
    using digit_string_ends(4) [OF C] digit_string_ends(4) [OF D] by (simp add: field_def)
  ultimately have s3: "py_strip (field @ '' '') = field"
    using py_strip_trailing_space [OF asc ne] digit_string_ends(1) [OF C]
      digit_string_ends(2) [OF D]
    by simp
  have s4: "contains field '',''"
    unfolding field_def by (rule contains_append)
  have "py_split (C @ CHR '','' # D) '','' = C # py_split D '',''"
    using digit_string_avoids(3) [OF C] by (rule py_split_char_first)
  then have s5: "py_index (py_split field '','') 0 = Inr C"
    by (simp add: py_index_def field_def)
  have s6: "py_int C = Inr (int (digits_value C))"
    using C short by (intro py_int_digits) (simp_all add: digit_string_def list_all_iff)
  have "hunk_start header = Inr (int (digits_value C))"
    by (simp add: hunk_start_def s1 s2 s3 s4 s5 s6)
  with header show ?thesis by simp
qed

lemma hunk_start_render_header:
  "within_digit_limit h \<Longrightarrow> hunk_start (render_header h) = Inr (int (hunk_new_start h))"
  unfolding render_header_def within_digit_limit_def
  using hunk_start_header [OF digit_string_show_nat digit_string_show_nat
          digit_string_show_nat digit_string_show_nat]
  by (simp add: digits_value_show_nat)

lemma render_header_starts: "startswith (render_header h) ''@@''"
  by (simp add: render_header_def startswith_def)

lemma py_split_lines:
  assumes "\<forall>l\<in>set ls. newline \<notin> set l"
  shows "py_split (concat (map (\<lambda>l. l @ [newline]) ls)) [newline] = ls @ [[]]"
  using assms
proof (induction ls)
  case Nil
  show ?case by simp
next
  case (Cons l rest)
  then have "newline \<notin> set l" by simp
  then have "py_split (l @ newline # concat (map (\<lambda>l. l @ [newline]) rest)) [newline]
          = l # py_split (concat (map (\<lambda>l. l @ [newline]) rest)) [newline]"
    by (rule py_split_char_first)
  with Cons show ?case by simp
qed

lemma render_line_kind:
  "unambiguous l \<Longrightarrow>
     (case l of
        Context s \<Rightarrow> advances (render_line l)
      | Added s \<Rightarrow> is_added (render_line l)
      | Removed s \<Rightarrow> is_removed (render_line l)
      | NoNewlineMarker \<Rightarrow> startswith (render_line l) [backslash])"
  by (cases l)
     (auto simp: advances_def is_added_def is_removed_def startswith_def backslash_def)

lemma scan_body:
  assumes "list_all unambiguous ls"
  shows "scan_lines (acc, int n) (map render_line ls)
           = Inr (acc @ map int (added_positions n ls), int (n + length (filter in_new ls)))"
  using assms
proof (induction ls arbitrary: acc n)
  case Nil
  show ?case by simp
next
  case (Cons l rest)
  then have l: "unambiguous l" and rest: "list_all unambiguous rest" by simp_all
  note IH = Cons.IH [OF rest]
  show ?case
  proof (cases l)
    case (Context s)
    with render_line_kind [OF l] have "advances (render_line l)" by simp
    then have "handle_line (acc, int n) (render_line l) = Inr (acc, int n + 1)"
      by (rule handle_line_advances)
    moreover have "int n + 1 = int (n + 1)" by simp
    ultimately show ?thesis using IH [of acc "n + 1"] Context by simp
  next
    case (Added s)
    with render_line_kind [OF l] have "is_added (render_line l)" by simp
    then have "handle_line (acc, int n) (render_line l) = Inr (acc @ [int n], int n + 1)"
      by (rule handle_line_added)
    moreover have "int n + 1 = int (n + 1)" by simp
    ultimately show ?thesis using IH [of "acc @ [int n]" "n + 1"] Added by simp
  next
    case (Removed s)
    with render_line_kind [OF l] have "is_removed (render_line l)" by simp
    then have "handle_line (acc, int n) (render_line l) = Inr (acc, int n)"
      by (rule handle_line_removed)
    then show ?thesis using IH [of acc n] Removed by simp
  next
    case NoNewlineMarker
    with render_line_kind [OF l] have "startswith (render_line l) [backslash]" by simp
    then have "handle_line (acc, int n) (render_line l) = Inr (acc, int n)"
      by (rule handle_line_marker)
    then show ?thesis using IH [of acc n] NoNewlineMarker by simp
  qed
qed

lemma scan_hunks:
  assumes "list_all (\<lambda>h. list_all unambiguous (hunk_body h)) hs"
    and "list_all within_digit_limit hs"
  shows "\<exists>cur'. scan_lines (acc, cur) (concat (map render_hunk hs))
           = Inr (acc @ map int (new_file_positions hs), cur')"
  using assms
proof (induction hs arbitrary: acc cur)
  case Nil
  show ?case by (simp add: new_file_positions_def)
next
  case (Cons h rest)
  then have h: "list_all unambiguous (hunk_body h)"
    and rest: "list_all (\<lambda>h. list_all unambiguous (hunk_body h)) rest"
    and limit: "within_digit_limit h"
    and limits: "list_all within_digit_limit rest" by simp_all
  have "handle_line (acc, cur) (render_header h) = Inr (acc, int (hunk_new_start h))"
    using render_header_starts hunk_start_render_header [OF limit] by (rule handle_line_valid)
  moreover note scan_body [OF h, of acc "hunk_new_start h"]
  ultimately have "scan_lines (acc, cur) (render_hunk h)
      = Inr (acc @ map int (added_positions (hunk_new_start h) (hunk_body h)),
             int (hunk_new_start h + length (filter in_new (hunk_body h))))"
    by (simp add: render_hunk_def)
  moreover from Cons.IH [OF rest limits] obtain cur' where
    "scan_lines (acc @ map int (added_positions (hunk_new_start h) (hunk_body h)),
                 int (hunk_new_start h + length (filter in_new (hunk_body h))))
       (concat (map render_hunk rest))
     = Inr ((acc @ map int (added_positions (hunk_new_start h) (hunk_body h)))
            @ map int (new_file_positions rest), cur')"
    by blast
  ultimately show ?case
    by (auto simp: scan_lines_append new_file_positions_def)
qed

lemma render_line_no_newline:
  "newline \<notin> set (line_content l) \<Longrightarrow> newline \<notin> set (render_line l)"
  by (cases l) (auto simp: newline_def backslash_def)

lemma render_header_no_newline: "newline \<notin> set (render_header h)"
  using digit_string_avoids(4) [OF digit_string_show_nat]
  by (auto simp: render_header_def newline_def)

lemma rendered_lines_no_newline:
  assumes "list_all (\<lambda>h. list_all (\<lambda>l. newline \<notin> set (line_content l)) (hunk_body h)) hs"
  shows "\<forall>l\<in>set (concat (map render_hunk hs)). newline \<notin> set l"
  using assms render_line_no_newline render_header_no_newline
  by (auto simp: render_hunk_def list_all_iff)

lemma parse_render_diff:
  assumes "well_formed hs" and "list_all (\<lambda>h. list_all unambiguous (hunk_body h)) hs"
    and "list_all within_digit_limit hs"
  shows "parse_diff_for_new_lines (render_diff hs) = Inr (map int (new_file_positions hs))"
proof -
  from assms(1) have "\<forall>l\<in>set (concat (map render_hunk hs)). newline \<notin> set l"
    by (intro rendered_lines_no_newline) (simp add: well_formed_def)
  then have lines: "py_split (render_diff hs) [newline] = concat (map render_hunk hs) @ [[]]"
    unfolding render_diff_def by (rule py_split_lines)
  from scan_hunks [OF assms(2) assms(3), of "[]" 0] obtain cur where
    "scan_lines ([], 0) (concat (map render_hunk hs))
       = Inr (map int (new_file_positions hs), cur)"
    by auto
  moreover have "advances []"
    by (simp add: advances_def is_added_def is_removed_def startswith_def)
  then have "handle_line (map int (new_file_positions hs), cur) []
               = Inr (map int (new_file_positions hs), cur + 1)"
    by (rule handle_line_advances)
  ultimately have "scan_lines ([], 0) (concat (map render_hunk hs) @ [[]])
       = Inr (map int (new_file_positions hs), cur + 1)"
    by (simp add: scan_lines_append)
  with lines show ?thesis by (simp add: parse_diff_for_new_lines_def)
qed

lemma added_positions_bounds:
  "x \<in> set (added_positions n ls) \<Longrightarrow> n \<le> x \<and> x < n + length (filter in_new ls)"
proof (induction n ls rule: added_positions.induct)
  case (1 n)
  then show ?case by simp
next
  case (2 n s rest)
  then show ?case by fastforce
next
  case (3 n s rest)
  then show ?case by fastforce
next
  case (4 n s rest)
  then show ?case by simp
next
  case (5 n rest)
  then show ?case by simp
qed

lemma added_positions_increasing: "sorted_wrt (<) (added_positions n ls)"
proof (induction n ls rule: added_positions.induct)
  case (3 n s rest)
  have "\<forall>x\<in>set (added_positions (n + 1) rest). n < x"
    using added_positions_bounds [of _ "n + 1" rest] by fastforce
  with 3 show ?case by simp
qed simp_all

lemma positions_after_start:
  assumes "hunks_ordered (h # rest)" and "x \<in> set (new_file_positions (h # rest))"
  shows "hunk_new_start h \<le> x"
  using assms
proof (induction rest arbitrary: h)
  case Nil
  then show ?case
    using added_positions_bounds [of x "hunk_new_start h" "hunk_body h"]
    by (auto simp: new_file_positions_def)
next
  case (Cons k rest)
  then have ord: "hunk_new_start h + new_count h \<le> hunk_new_start k"
    and ord': "hunks_ordered (k # rest)" by simp_all
  from Cons.prems(2) have "x \<in> set (added_positions (hunk_new_start h) (hunk_body h))
      \<or> x \<in> set (new_file_positions (k # rest))"
    by (auto simp: new_file_positions_def)
  then show ?case
  proof
    assume "x \<in> set (added_positions (hunk_new_start h) (hunk_body h))"
    then show ?thesis using added_positions_bounds by blast
  next
    assume "x \<in> set (new_file_positions (k # rest))"
    with Cons.IH [OF ord'] have "hunk_new_start k \<le> x" by blast
    with ord show ?thesis by simp
  qed
qed

lemma new_file_positions_increasing:
  "hunks_ordered hs \<Longrightarrow> sorted_wrt (<) (new_file_positions hs)"
proof (induction hs rule: hunks_ordered.induct)
  case 1
  show ?case by (simp add: new_file_positions_def)
next
  case (2 h)
  show ?case by (simp add: new_file_positions_def added_positions_increasing)
next
  case (3 h k rest)
  then have ord: "hunk_new_start h + new_count h \<le> hunk_new_start k"
    and ord': "hunks_ordered (k # rest)" by simp_all
  have split: "new_file_positions (h # k # rest)
      = added_positions (hunk_new_start h) (hunk_body h) @ new_file_positions (k # rest)"
    by (simp add: new_file_positions_def)
  have "x < y" if "x \<in> set (added_positions (hunk_new_start h) (hunk_body h))"
    and "y \<in> set (new_file_positions (k # rest))" for x y
  proof -
    from that(1) have "x < hunk_new_start h + new_count h"
      using added_positions_bounds by (fastforce simp: new_count_def)
    moreover from positions_after_start [OF ord' that(2)] have "hunk_new_start k \<le> y" .
    ultimately show ?thesis using ord by simp
  qed
  with "3.IH" [OF ord'] show ?case
    unfolding split by (simp add: sorted_wrt_append added_positions_increasing)
qed

lemma parse_render_diff_increasing:
  assumes "well_formed hs" and "list_all (\<lambda>h. list_all unambiguous (hunk_body h)) hs"
    and "list_all within_digit_limit hs"
  shows "\<exists>new_lines. parse_diff_for_new_lines (render_diff hs) = Inr new_lines
           \<and> new_lines = map int (new_file_positions hs)
           \<and> sorted_wrt (<) new_lines \<and> distinct new_lines"
proof -
  from assms(1) have "sorted_wrt (<) (new_file_positions hs)"
    by (intro new_file_positions_increasing) (simp add: well_formed_def)
  then have "sorted_wrt (<) (map int (new_file_positions hs))"
    by (simp add: sorted_wrt_map)
  moreover from this have "distinct (map int (new_file_positions hs))"
    using strict_sorted_iff by blast
  ultimately show ?thesis using parse_render_diff [OF assms] by simp
qed

text \<open>
  The other ambiguous case: an added line whose content begins with two plus signs is not
  recorded.
\<close>

lemma added_pluses_skipped:
  "render_diff [Hunk 1 1 [Context ''a'', Added ''++i;'']] = ''@@ -1,1 +1,2 @@\<newline> a\<newline>+++i;\<newline>''
   \<and> new_file_positions [Hunk 1 1 [Context ''a'', Added ''++i;'']] = [2]
   \<and> parse_diff_for_new_lines ''@@ -1,1 +1,2 @@\<newline> a\<newline>+++i;\<newline>'' = Inr []"
  by code_simp

section \<open>Properties of the file selector\<close>

lemma should_review_file_refines:
  "should_review_file patterns extensions file_path
     = spec_should_review patterns extensions file_path"
proof (induction patterns)
  case Nil
  show ?case by (simp add: spec_should_review_def)
next
  case (Cons pattern rest)
  then show ?case
    by (simp add: spec_should_review_def pattern_matches_def glob_suffix_match_def
        directory_match_def substring_match_def)
qed

lemma excluded_by_pattern:
  assumes "pattern \<in> set patterns" and "pattern_matches pattern file_path"
  shows "\<not> should_review_file patterns extensions file_path"
proof -
  from assms have "list_ex (\<lambda>p. pattern_matches p file_path) patterns"
    by (auto simp: list_ex_iff)
  then show ?thesis by (simp add: should_review_file_refines spec_should_review_def)
qed

lemma node_modules_excluded:
  assumes "contains file_path ''node_modules''"
  shows "\<not> should_review_file IGNORE_PATTERNS REVIEW_EXTENSIONS file_path"
proof -
  have "''node_modules'' \<in> set IGNORE_PATTERNS" by (simp add: IGNORE_PATTERNS_def)
  moreover have "pattern_matches ''node_modules'' file_path"
    using assms
    by (simp add: pattern_matches_def substring_match_def startswith_def endswith_def
        suffix_to_prefix)
  ultimately show ?thesis by (rule excluded_by_pattern)
qed

lemma lower_char_idem: "lower_char (lower_char c) = lower_char c"
proof -
  have "of_char (char_of (of_char c + 32 :: nat)) = (of_char c + 32 :: nat)"
    if "(of_char c :: nat) \<le> 90"
    using that by (simp add: of_char_of)
  then show ?thesis by (auto simp: lower_char_def Let_def)
qed

lemma py_lower_idem: "py_lower (py_lower s) = py_lower s"
  by (simp add: py_lower_def lower_char_idem)

text \<open>
  What the selector does for any two collections: exclusion when a pattern matches, and
  otherwise the lower-cased extension of the path looked up in the set as it stands.  The
  look-up compares without regard to case when every entry of the set is in lower case,
  as the built-in entries are; an entry with an upper-case letter equals no lower-cased
  extension.
\<close>

lemma should_review_file_rule:
  "should_review_file patterns extensions file_path
     = (if list_ex (\<lambda>pattern. pattern_matches pattern file_path) patterns then False
        else py_lower (path_suffix file_path) \<in> extensions)"
  by (simp add: should_review_file_refines spec_should_review_def)

lemma lower_case_set_lookup:
  assumes "\<forall>e\<in>extensions. py_lower e = e"
  shows "py_lower (path_suffix file_path) \<in> extensions
           \<longleftrightarrow> (\<exists>e\<in>extensions. py_lower e = py_lower (path_suffix file_path))"
  using assms by (metis py_lower_idem)

lemma upper_case_entry_unmatched:
  assumes "py_lower e \<noteq> e"
  shows "py_lower (path_suffix file_path) \<noteq> e"
  using assms by (metis py_lower_idem)

lemma built_in_extensions_lower: "\<forall>e\<in>REVIEW_EXTENSIONS. py_lower e = e"
  unfolding REVIEW_EXTENSIONS_def by code_simp

lemma should_review_file_examples:
  "should_review_file IGNORE_PATTERNS REVIEW_EXTENSIONS ''src/app.go''
   \<and> should_review_file IGNORE_PATTERNS REVIEW_EXTENSIONS ''src/App.GO''
   \<and> \<not> should_review_file IGNORE_PATTERNS REVIEW_EXTENSIONS ''vendor/pkg/app.go''
   \<and> \<not> should_review_file IGNORE_PATTERNS REVIEW_EXTENSIONS ''web/node_modules/lib/index.js''
   \<and> \<not> should_review_file IGNORE_PATTERNS REVIEW_EXTENSIONS ''docs/README.md''
   \<and> py_lower ''.GO'' = ''.go''"
  by code_simp

text \<open>
  C7 fails on the code for an extension that is configured with an upper-case letter.
  With \<open>REVIEW_EXTENSIONS=MD\<close> in the environment \<open>init_config\<close> adds the entry \<open>.MD\<close> as
  typed.  No pattern matches the path \<open>docs/README.MD\<close> and its extension \<open>.MD\<close> is in the
  set, letter for letter; the selector lower-cases the extension of the path only, looks
  for \<open>.md\<close>, and refuses the file, as it refuses \<open>docs/README.md\<close>.
\<close>

theorem configured_extension_refused:
  "init_config [] ''MD'' = (IGNORE_PATTERNS, insert ''.MD'' REVIEW_EXTENSIONS)
   \<and> path_suffix ''docs/README.MD'' = ''.MD''
   \<and> py_lower (path_suffix ''docs/README.MD'') = ''.md''
   \<and> ''.md'' \<notin> insert ''.MD'' REVIEW_EXTENSIONS
   \<and> \<not> list_ex (\<lambda>pattern. pattern_matches pattern ''docs/README.MD'') IGNORE_PATTERNS
   \<and> \<not> should_review_file IGNORE_PATTERNS (insert ''.MD'' REVIEW_EXTENSIONS) ''docs/README.MD''
   \<and> \<not> should_review_file IGNORE_PATTERNS (insert ''.MD'' REVIEW_EXTENSIONS) ''docs/README.md''"
  by code_simp

section \<open>Properties of the annotation formatter\<close>

lemma emoji_for_other:
  assumes "severity \<noteq> JStr ''critical''" and "severity \<noteq> JStr ''warning''"
    and "severity \<noteq> JStr ''suggestion''"
    and "\<forall>items. severity \<noteq> JArray items" and "\<forall>d. severity \<noteq> JObject d"
  shows "emoji_for severity = Inr glyph_fallback"
proof (cases severity)
  case (JStr s)
  with assms have "s \<noteq> ''critical''" "s \<noteq> ''warning''" "s \<noteq> ''suggestion''" by simp_all
  with JStr show ?thesis by (simp add: severity_emoji_def)
qed (use assms in simp_all)

text \<open>
  What the formatter writes for a finding whose severity can be hashed (null, a boolean,
  a number, a string): the glyph of the severity, a space, the authorship marker, a colon
  and the message; and exactly when the suggestion is non-empty, two line breaks and a
  quoted line with the bulb glyph, the heading and the suggestion.  The severities
  critical, warning and suggestion have a glyph each, every other such severity has the
  fallback glyph, and the four glyphs differ.  A finding without a severity counts as a
  suggestion.
\<close>

lemma format_comment_hashable:
  assumes "emoji_for (dict_get comment ''severity'' (JStr ''suggestion'')) = Inr glyph"
  shows "format_comment py_repr comment
     = Inr (glyph @ '' **RejPAL**: '' @ py_str py_repr (dict_get comment ''message'' (JStr []))
            @ (if truthy (dict_get comment ''suggestion'' (JStr []))
               then [newline, newline] @ ''> '' @ [CHR 0xF0, CHR 0x9F, CHR 0x92, CHR 0xA1]
                    @ '' **N'' @ [CHR 0xC3, CHR 0xA1] @ ''vrh**: ''
                    @ py_str py_repr (dict_get comment ''suggestion'' (JStr []))
               else []))"
  using assms
  by (simp add: format_comment_def Let_def authorship_marker_def suggestion_heading_def
      glyph_suggestion_def)

lemma severity_glyphs:
  "emoji_for (JStr ''critical'') = Inr [CHR 0xF0, CHR 0x9F, CHR 0x94, CHR 0xB4]
   \<and> emoji_for (JStr ''warning'') = Inr [CHR 0xF0, CHR 0x9F, CHR 0x9F, CHR 0xA1]
   \<and> emoji_for (JStr ''suggestion'') = Inr [CHR 0xF0, CHR 0x9F, CHR 0x92, CHR 0xA1]
   \<and> emoji_for (JStr ''info'') = Inr [CHR 0xF0, CHR 0x9F, CHR 0x92, CHR 0xAC]
   \<and> emoji_for JNull = Inr [CHR 0xF0, CHR 0x9F, CHR 0x92, CHR 0xAC]
   \<and> emoji_for (JInt 3) = Inr [CHR 0xF0, CHR 0x9F, CHR 0x92, CHR 0xAC]
   \<and> glyph_fallback = [CHR 0xF0, CHR 0x9F, CHR 0x92, CHR 0xAC]
   \<and> distinct [glyph_critical, glyph_warning, glyph_suggestion, glyph_fallback]"
  by (simp add: severity_emoji_def glyph_critical_def glyph_warning_def glyph_suggestion_def
      glyph_fallback_def)

lemma format_comment_examples:
  "format_comment py_repr [(''severity'', JStr ''info''), (''message'', JStr ''Unused import''),
                           (''suggestion'', JStr ''Remove it'')]
     = Inr ([CHR 0xF0, CHR 0x9F, CHR 0x92, CHR 0xAC] @ '' **RejPAL**: Unused import''
            @ [newline, newline] @ ''> '' @ [CHR 0xF0, CHR 0x9F, CHR 0x92, CHR 0xA1]
            @ '' **N'' @ [CHR 0xC3, CHR 0xA1] @ ''vrh**: Remove it'')
   \<and> format_comment py_repr [(''severity'', JStr ''info''), (''message'', JStr ''Unused import'')]
     = Inr ([CHR 0xF0, CHR 0x9F, CHR 0x92, CHR 0xAC] @ '' **RejPAL**: Unused import'')
   \<and> format_comment py_repr [(''message'', JStr ''Unused import''), (''suggestion'', JStr [])]
     = Inr ([CHR 0xF0, CHR 0x9F, CHR 0x92, CHR 0xA1] @ '' **RejPAL**: Unused import'')"
  by code_simp

text \<open>
  C8 fails on the code for a severity that is a list or an object.  The finding below
  passes the filter of \<open>analyze_with_ai\<close> (it is an object, its line is a changed line,
  its message is not empty).  Its severity is a list, which is none of the three known
  severities, so the claim gives it the fallback glyph; \<open>severity_emoji.get\<close> hashes the
  key, the list cannot be hashed, and \<open>format_comment\<close> raises TypeError.  Nothing catches
  it: the pass of the example environment ends with that error after the request that
  creates the summary note, and neither the comment nor the summary is written.
\<close>

theorem unhashable_severity_raises:
  "analyze_with_ai
       (\<lambda>file_path file_content d changed_lines rules.
          Inr (JArray [JObject [(''line'', JInt 11), (''severity'', JArray [JStr ''critical'']),
                                (''message'', JStr ''Name it'')]]))
       ''src/app.go'' ''package main'' example_diff [11, 12] ''rules''
     = Inr [[(''line'', JInt 11), (''severity'', JArray [JStr ''critical'']),
             (''message'', JStr ''Name it'')]]
   \<and> emoji_for (JArray [JStr ''critical'']) = Inl TypeError
   \<and> format_comment py_repr [(''line'', JInt 11), (''severity'', JArray [JStr ''critical'']),
                             (''message'', JStr ''Name it'')]
     = Inl TypeError
   \<and> main py_repr (example_gitlab 204 [])
       (\<lambda>file_path file_content d changed_lines rules.
          Inr (JArray [JObject [(''line'', JInt 11), (''severity'', JArray [JStr ''critical'']),
                                (''message'', JStr ''Name it'')]]))
       IGNORE_PATTERNS REVIEW_EXTENSIONS ''rules''
     = ([DeleteNote 7 204, CreateNote placeholder (Inr 9)], Inl TypeError)"
  by code_simp

section \<open>Properties of the review pass\<close>

lemma fst_io_bind:
  "fst (io_bind m f) = fst m @ (case snd m of Inl e \<Rightarrow> [] | Inr x \<Rightarrow> fst (f x))"
  by (cases m) (auto simp: io_bind_def split: sum.splits prod.splits)

lemma snd_io_bind:
  "snd (io_bind m f) = (case snd m of Inl e \<Rightarrow> Inl e | Inr x \<Rightarrow> snd (f x))"
  by (cases m) (auto simp: io_bind_def split: sum.splits prod.splits)

lemma in_io_bind:
  assumes "c \<in> set (fst (io_bind m f))"
  shows "c \<in> set (fst m) \<or> (\<exists>x. snd m = Inr x \<and> c \<in> set (fst (f x)))"
  using assms by (auto simp: fst_io_bind split: sum.splits)

lemma fst_io_read [simp]: "fst (io_read a) = []"
  by (simp add: io_read_def)

lemma snd_io_read [simp]: "snd (io_read a) = a"
  by (simp add: io_read_def)

lemma fst_io_return [simp]: "fst (io_return x) = []"
  by (simp add: io_return_def)

lemma snd_io_return [simp]: "snd (io_return x) = Inr x"
  by (simp add: io_return_def)

lemma fst_io_request [simp]: "fst (io_request c a) = [c]"
  by (simp add: io_request_def)

lemma snd_io_request [simp]: "snd (io_request c a) = a"
  by (simp add: io_request_def)

lemma delete_existing_calls:
  "fst (delete_existing gitlab existing n)
     = map (\<lambda>c. DeleteNote (ec_note_id c) (delete_mr_note gitlab (ec_note_id c))) existing"
  by (induction existing arbitrary: n) (simp_all add: fst_io_bind)

lemma delete_existing_count:
  "snd (delete_existing gitlab existing n) = Inr (n + length existing)"
  by (induction existing arbitrary: n) (simp_all add: snd_io_bind)

lemma publish_comments_calls:
  assumes "c \<in> set (fst (publish_comments py_repr gitlab file_path refs comments n))"
  shows "\<exists>comment\<in>set comments. \<exists>note_text.
           format_comment py_repr comment = Inr note_text
           \<and> c = CreateDiscussion note_text file_path (dict_get comment ''line'' JNull) refs
                   (create_mr_discussion gitlab note_text file_path
                      (dict_get comment ''line'' JNull) refs)"
  using assms
proof (induction comments arbitrary: n)
  case Nil
  then show ?case by simp
next
  case (Cons comment rest)
  show ?case
  proof (cases "format_comment py_repr comment")
    case (Inl e)
    with Cons.prems show ?thesis by (simp add: Let_def fst_io_bind)
  next
    case (Inr note_text)
    with Cons.prems
    have "c = CreateDiscussion note_text file_path (dict_get comment ''line'' JNull) refs
                (create_mr_discussion gitlab note_text file_path
                   (dict_get comment ''line'' JNull) refs)
          \<or> c \<in> set (fst (publish_comments py_repr gitlab file_path refs rest (n + 1)))"
      by (simp add: Let_def fst_io_bind)
    then show ?thesis
    proof
      assume "c = CreateDiscussion note_text file_path (dict_get comment ''line'' JNull) refs
                (create_mr_discussion gitlab note_text file_path
                   (dict_get comment ''line'' JNull) refs)"
      with Inr show ?thesis by auto
    next
      assume "c \<in> set (fst (publish_comments py_repr gitlab file_path refs rest (n + 1)))"
      from Cons.IH [OF this] show ?thesis by auto
    qed
  qed
qed



lemma ensure_summary_note_calls:
  "fst (ensure_summary_note gitlab notes) = []
   \<or> fst (ensure_summary_note gitlab notes)
        = [CreateNote placeholder (create_mr_note gitlab placeholder)]"
  by (simp add: ensure_summary_note_def Let_def split: option.splits)


lemma review_changes_calls:
  assumes "c \<in> set (fst (review_changes py_repr gitlab ai_client patterns extensions rules
                            source_branch refs chs counters))"
  shows "\<exists>ch\<in>set chs. published_from py_repr gitlab ai_client rules ch c"
  using assms
proof (induction chs arbitrary: counters)
  case Nil
  then show ?case by simp
next
  case (Cons ch rest)
  obtain reviewed total where counters: "counters = (reviewed, total)" by (cases counters)
  have rest_ok: "\<And>k. c \<in> set (fst (review_changes py_repr gitlab ai_client patterns extensions
                            rules source_branch refs rest k))
          \<Longrightarrow> \<exists>ch\<in>set (ch # rest). published_from py_repr gitlab ai_client rules ch c"
    using Cons.IH by auto
  show ?case
  proof (cases "\<not> should_review_file patterns extensions (change_new_path ch)
                \<or> change_deleted_file ch")
    case True
    then have "review_changes py_repr gitlab ai_client patterns extensions rules source_branch
                 refs (ch # rest) (reviewed, total)
               = review_changes py_repr gitlab ai_client patterns extensions rules source_branch
                   refs rest (reviewed, total)"
      by (cases "should_review_file patterns extensions (change_new_path ch)")
         (simp_all add: Let_def)
    with Cons.prems counters show ?thesis using rest_ok by simp
  next
    case reviewable: False
    show ?thesis
    proof (cases "parse_diff_for_new_lines (change_diff ch)")
      case (Inl e)
      with Cons.prems counters reviewable show ?thesis
        by (simp add: Let_def fst_io_bind)
    next
      case (Inr changed_lines)
      show ?thesis
      proof (cases "changed_lines = []")
        case True
        with Cons.prems counters reviewable Inr rest_ok show ?thesis
          by (simp add: Let_def fst_io_bind)
      next
        case lines: False
        show ?thesis
        proof (cases "get_file_content gitlab (change_new_path ch) source_branch")
          case (Inl e)
          with Cons.prems counters reviewable Inr lines show ?thesis
            by (simp add: Let_def fst_io_bind)
        next
          case got: (Inr file_content)
          show ?thesis
          proof (cases "file_content = None \<or> file_content = Some []")
            case True
            with Cons.prems counters reviewable Inr lines got rest_ok show ?thesis
              by (auto simp: Let_def fst_io_bind)
          next
            case False
            then obtain fc where fc: "file_content = Some fc" "fc \<noteq> []" by auto
            show ?thesis
            proof (cases "analyze_with_ai ai_client (change_new_path ch) fc (change_diff ch)
                            changed_lines rules")
              case (Inl e)
              with Cons.prems counters reviewable Inr lines got fc show ?thesis
                by (simp add: Let_def fst_io_bind)
            next
              case analysed: (Inr comments)
              from Cons.prems counters reviewable Inr lines got fc analysed
              have "c \<in> set (fst (publish_comments py_repr gitlab (change_new_path ch) refs
                                    comments total))
                    \<or> (\<exists>k. c \<in> set (fst (review_changes py_repr gitlab ai_client patterns
                            extensions rules source_branch refs rest k)))"
                by (auto simp: Let_def fst_io_bind split: sum.splits)
              then show ?thesis
              proof
                assume "c \<in> set (fst (publish_comments py_repr gitlab (change_new_path ch) refs
                                        comments total))"
                from publish_comments_calls [OF this]
                obtain comment note_text where "comment \<in> set comments"
                  and "format_comment py_repr comment = Inr note_text"
                  and "c = CreateDiscussion note_text (change_new_path ch)
                          (dict_get comment ''line'' JNull) refs
                          (create_mr_discussion gitlab note_text (change_new_path ch)
                             (dict_get comment ''line'' JNull) refs)"
                  by blast
                with Inr analysed have "published_from py_repr gitlab ai_client rules ch c"
                  unfolding published_from_def by blast
                then show ?thesis by simp
              next
                assume "\<exists>k. c \<in> set (fst (review_changes py_repr gitlab ai_client patterns
                            extensions rules source_branch refs rest k))"
                then show ?thesis using rest_ok by blast
              qed
            qed
          qed
        qed
      qed
    qed
  qed
qed

lemma main_calls_unfold:
  "fst (main py_repr gitlab ai_client patterns extensions rules) =
     (case get_mr_info gitlab of Inl e \<Rightarrow> [] | Inr source_branch \<Rightarrow>
      case get_mr_changes gitlab of Inl e \<Rightarrow> [] | Inr mr \<Rightarrow>
      case get_mr_discussions gitlab of Inl e \<Rightarrow> [] | Inr discussions \<Rightarrow>
        fst (delete_existing gitlab (get_existing_ai_comments discussions) 0)
        @ (case get_mr_notes gitlab of Inl e \<Rightarrow> [] | Inr ns \<Rightarrow>
             fst (ensure_summary_note gitlab ns)
             @ (case snd (ensure_summary_note gitlab ns) of Inl e \<Rightarrow> [] | Inr i \<Rightarrow>
                  fst (review_changes py_repr gitlab ai_client patterns extensions rules source_branch
                         (dict_get (diff_refs mr) ''base_sha'' JNull,
                          dict_get (diff_refs mr) ''head_sha'' JNull,
                          dict_get (diff_refs mr) ''start_sha'' JNull)
                         (changes mr) (0, 0))
                  @ (case snd (review_changes py_repr gitlab ai_client patterns extensions rules
                                 source_branch
                                 (dict_get (diff_refs mr) ''base_sha'' JNull,
                                  dict_get (diff_refs mr) ''head_sha'' JNull,
                                  dict_get (diff_refs mr) ''start_sha'' JNull)
                                 (changes mr) (0, 0)) of
                       Inl e \<Rightarrow> []
                     | Inr (r, t) \<Rightarrow>
                         [UpdateNote i
                            (summary_text r t
                               (length (get_existing_ai_comments discussions)))
                            (update_mr_note gitlab i
                               (summary_text r t
                                  (length (get_existing_ai_comments discussions))))]))))"
  unfolding main_def
  by (simp add: fst_io_bind snd_io_bind delete_existing_count split: sum.splits prod.splits)

lemma main_calls:
  assumes "c \<in> set (fst (main py_repr gitlab ai_client patterns extensions rules))"
  shows "(\<exists>i status. c = DeleteNote i status)
       \<or> (\<exists>ns. get_mr_notes gitlab = Inr ns \<and> c \<in> set (fst (ensure_summary_note gitlab ns)))
       \<or> (\<exists>mr. get_mr_changes gitlab = Inr mr
              \<and> (\<exists>ch\<in>set (changes mr). published_from py_repr gitlab ai_client rules ch c))
       \<or> (\<exists>ns i body. get_mr_notes gitlab = Inr ns
              \<and> snd (ensure_summary_note gitlab ns) = Inr i
              \<and> c = UpdateNote i body (update_mr_note gitlab i body))"
proof (cases "get_mr_info gitlab")
  case (Inl e)
  with assms show ?thesis by (simp add: main_calls_unfold)
next
  case info: (Inr source_branch)
  show ?thesis
  proof (cases "get_mr_changes gitlab")
    case (Inl e)
    with assms info show ?thesis by (simp add: main_calls_unfold)
  next
    case mr: (Inr mr)
    show ?thesis
    proof (cases "get_mr_discussions gitlab")
      case (Inl e)
      with assms info mr show ?thesis by (simp add: main_calls_unfold)
    next
      case ds: (Inr discussions)
      let ?review = "review_changes py_repr gitlab ai_client patterns extensions rules source_branch
                         (dict_get (diff_refs mr) ''base_sha'' JNull,
                          dict_get (diff_refs mr) ''head_sha'' JNull,
                          dict_get (diff_refs mr) ''start_sha'' JNull)
                         (changes mr) (0, 0)"
      from assms info mr ds
      consider (delete) "c \<in> set (fst (delete_existing gitlab (get_existing_ai_comments discussions) 0))"
        | (later) ns where "get_mr_notes gitlab = Inr ns"
            "c \<in> set (fst (ensure_summary_note gitlab ns)
                       @ (case snd (ensure_summary_note gitlab ns) of Inl e \<Rightarrow> [] | Inr i \<Rightarrow>
                            fst ?review
                            @ (case snd ?review of
                                 Inl e \<Rightarrow> []
                               | Inr (r, t) \<Rightarrow>
                                   [UpdateNote i
                                      (summary_text r t
                                         (length (get_existing_ai_comments discussions)))
                                      (update_mr_note gitlab i
                                         (summary_text r t
                                            (length (get_existing_ai_comments discussions))))])))"
        by (cases "get_mr_notes gitlab") (auto simp: main_calls_unfold)
      then show ?thesis
      proof cases
        case delete
        then show ?thesis by (auto simp: delete_existing_calls)
      next
        case later
        show ?thesis
        proof (cases "c \<in> set (fst (ensure_summary_note gitlab ns))")
          case True
          with later(1) show ?thesis by blast
        next
          case False
          with later(2) obtain i where i: "snd (ensure_summary_note gitlab ns) = Inr i"
            and c: "c \<in> set (fst ?review) \<or>
                    (\<exists>body. c = UpdateNote i body (update_mr_note gitlab i body))"
            by (cases "snd (ensure_summary_note gitlab ns)")
               (auto split: sum.splits prod.splits)
          from c show ?thesis
          proof
            assume "c \<in> set (fst ?review)"
            then have "\<exists>ch\<in>set (changes mr). published_from py_repr gitlab ai_client rules ch c"
              by (rule review_changes_calls)
            with mr show ?thesis by blast
          next
            assume "\<exists>body. c = UpdateNote i body (update_mr_note gitlab i body)"
            with later(1) i show ?thesis by blast
          qed
        qed
      qed
    qed
  qed
qed

lemma valid_comment_Some:
  "valid_comment changed_lines item = Some c \<longleftrightarrow>
     item = JObject c \<and> py_in (dict_get c ''line'' JNull) changed_lines
     \<and> truthy (dict_get c ''message'' JNull)"
  by (cases item) auto

lemma set_map_filter_valid:
  "c \<in> set (List.map_filter (valid_comment changed_lines) items) \<longleftrightarrow>
     JObject c \<in> set items \<and> py_in (dict_get c ''line'' JNull) changed_lines
     \<and> truthy (dict_get c ''message'' JNull)"
proof -
  have "c \<in> set (List.map_filter (valid_comment changed_lines) items) \<longleftrightarrow>
        (\<exists>item\<in>set items. valid_comment changed_lines item = Some c)"
    by (induction items) (auto simp: List.map_filter_simps split: option.splits)
  then show ?thesis by (auto simp: valid_comment_Some)
qed

lemma analyze_with_ai_list:
  assumes "ai_client file_path file_content d changed_lines rules = Inr (JArray items)"
  shows "analyze_with_ai ai_client file_path file_content d changed_lines rules
           = Inr (List.map_filter (valid_comment changed_lines) items)"
  using assms by (simp add: analyze_with_ai_def)

lemma analyze_with_ai_valid:
  assumes "analyze_with_ai ai_client file_path file_content d changed_lines rules = Inr comments"
    and "c \<in> set comments"
  shows "py_in (dict_get c ''line'' JNull) changed_lines \<and> truthy (dict_get c ''message'' JNull)"
proof (cases "ai_client file_path file_content d changed_lines rules")
  case (Inl e)
  with assms show ?thesis by (cases e) (simp_all add: analyze_with_ai_def)
next
  case (Inr answer)
  with assms obtain items where "py_iter answer = Inr items"
    and "comments = List.map_filter (valid_comment changed_lines) items"
    by (auto simp: analyze_with_ai_def split: sum.splits)
  with assms(2) show ?thesis by (simp add: set_map_filter_valid)
qed

lemma no_create_in_deletes: "filter is_create_note (fst (delete_existing gitlab existing n)) = []"
  by (simp add: delete_existing_calls filter_empty_conv)

lemma no_create_in_review:
  "filter is_create_note
     (fst (review_changes py_repr gitlab ai_client patterns extensions rules source_branch refs chs
             counters)) = []"
proof -
  have "\<not> is_create_note c"
    if "c \<in> set (fst (review_changes py_repr gitlab ai_client patterns extensions rules source_branch
                        refs chs counters))" for c
  proof -
    from review_changes_calls [OF that] obtain ch where
      "published_from py_repr gitlab ai_client rules ch c" by blast
    then show ?thesis unfolding published_from_def by auto
  qed
  then show ?thesis by (simp add: filter_empty_conv)
qed

lemma creates_in_ensure:
  "length (filter is_create_note (fst (ensure_summary_note gitlab ns))) \<le> Suc 0"
  using ensure_summary_note_calls [of gitlab ns] by auto

lemma at_most_one_create:
  "length (filter is_create_note (fst (main py_repr gitlab ai_client patterns extensions rules))) \<le> 1"
  unfolding main_calls_unfold
  by (auto simp: no_create_in_deletes no_create_in_review creates_in_ensure
           split: sum.splits prod.splits)

text \<open>
  C6: of the items the advisory service returns, \<open>analyze_with_ai\<close> keeps exactly the
  findings whose line is among the changed lines and whose message is non-empty; the
  others are dropped and no error is raised for them.  Every positioned comment that
  \<open>main\<close> sends is the formatted text of a finding with a non-empty message, on a line that
  the mapper returned for the diff of that file.
\<close>

theorem dropped_findings_never_published:
  "(ai_client file_path file_content d changed_lines rules = Inr (JArray items) \<longrightarrow>
      (\<exists>comments.
         analyze_with_ai ai_client file_path file_content d changed_lines rules = Inr comments
         \<and> (\<forall>c. c \<in> set comments \<longleftrightarrow>
                 (JObject c \<in> set items \<and> py_in (dict_get c ''line'' JNull) changed_lines
                  \<and> truthy (dict_get c ''message'' JNull)))))
   \<and> (CreateDiscussion note_text path line refs status
         \<in> set (fst (main py_repr gitlab ai_client patterns extensions rules)) \<longrightarrow>
      (\<exists>mr ch eligible comment.
         get_mr_changes gitlab = Inr mr \<and> ch \<in> set (changes mr) \<and> change_new_path ch = path
         \<and> parse_diff_for_new_lines (change_diff ch) = Inr eligible
         \<and> py_in line eligible
         \<and> format_comment py_repr comment = Inr note_text \<and> line = dict_get comment ''line'' JNull
         \<and> truthy (dict_get comment ''message'' JNull)))"
proof (intro conjI impI)
  assume "ai_client file_path file_content d changed_lines rules = Inr (JArray items)"
  then have "analyze_with_ai ai_client file_path file_content d changed_lines rules
           = Inr (List.map_filter (valid_comment changed_lines) items)"
    by (rule analyze_with_ai_list)
  then show "\<exists>comments.
         analyze_with_ai ai_client file_path file_content d changed_lines rules = Inr comments
         \<and> (\<forall>c. c \<in> set comments \<longleftrightarrow>
                 (JObject c \<in> set items \<and> py_in (dict_get c ''line'' JNull) changed_lines
                  \<and> truthy (dict_get c ''message'' JNull)))"
    by (simp add: set_map_filter_valid)
next
  let ?c = "CreateDiscussion note_text path line refs status"
  assume "?c \<in> set (fst (main py_repr gitlab ai_client patterns extensions rules))"
  from main_calls [OF this]
  obtain mr ch where mr: "get_mr_changes gitlab = Inr mr" and ch: "ch \<in> set (changes mr)"
    and pub: "published_from py_repr gitlab ai_client rules ch ?c"
    by (auto simp: ensure_summary_note_def Let_def split: option.splits if_splits)
  from pub obtain eligible fc comments comment where
    lines: "parse_diff_for_new_lines (change_diff ch) = Inr eligible"
    and an: "analyze_with_ai ai_client (change_new_path ch) fc (change_diff ch) eligible rules
               = Inr comments"
    and mem: "comment \<in> set comments"
    and eq: "format_comment py_repr comment = Inr note_text" "path = change_new_path ch"
            "line = dict_get comment ''line'' JNull"
    unfolding published_from_def by auto
  from analyze_with_ai_valid [OF an mem] eq
  have "py_in line eligible" "truthy (dict_get comment ''message'' JNull)" by simp_all
  with mr ch lines eq show "\<exists>mr ch eligible comment.
         get_mr_changes gitlab = Inr mr \<and> ch \<in> set (changes mr) \<and> change_new_path ch = path
         \<and> parse_diff_for_new_lines (change_diff ch) = Inr eligible
         \<and> py_in line eligible
         \<and> format_comment py_repr comment = Inr note_text \<and> line = dict_get comment ''line'' JNull
         \<and> truthy (dict_get comment ''message'' JNull)"
    by blast
qed

text \<open>
  The theorem in the example environment: of the four items one is kept, and the one
  comment that is sent is on line 11.
\<close>

theorem dropped_findings_never_published_witness:
  "example_ai ''src/app.go'' ''package main'' example_diff [11, 12] ''rules''
     = Inr (JArray example_findings)
   \<and> (\<exists>comments.
         analyze_with_ai example_ai ''src/app.go'' ''package main'' example_diff [11, 12] ''rules''
           = Inr comments
         \<and> (\<forall>c. c \<in> set comments \<longleftrightarrow>
                 (JObject c \<in> set example_findings \<and> py_in (dict_get c ''line'' JNull) [11, 12]
                  \<and> truthy (dict_get c ''message'' JNull))))
   \<and> analyze_with_ai example_ai ''src/app.go'' ''package main'' example_diff [11, 12] ''rules''
       = Inr [[(''line'', JInt 11), (''severity'', JStr ''warning''), (''message'', JStr ''Name it'')]]
   \<and> CreateDiscussion (glyph_warning @ '' **RejPAL**: Name it'') ''src/app.go'' (JInt 11)
          (JStr ''b0'', JStr ''h0'', JStr ''s0'') 201
       \<in> set (fst (main example_repr (example_gitlab 204 []) example_ai IGNORE_PATTERNS REVIEW_EXTENSIONS ''rules''))
   \<and> (\<exists>mr ch eligible comment.
         get_mr_changes (example_gitlab 204 []) = Inr mr \<and> ch \<in> set (changes mr)
         \<and> change_new_path ch = ''src/app.go''
         \<and> parse_diff_for_new_lines (change_diff ch) = Inr eligible
         \<and> py_in (JInt 11) eligible
         \<and> format_comment example_repr comment = Inr (glyph_warning @ '' **RejPAL**: Name it'')
         \<and> JInt 11 = dict_get comment ''line'' JNull
         \<and> truthy (dict_get comment ''message'' JNull))"
proof -
  have answer: "example_ai ''src/app.go'' ''package main'' example_diff [11, 12] ''rules''
     = Inr (JArray example_findings)"
    by (simp add: example_ai_def)
  have kept: "analyze_with_ai example_ai ''src/app.go'' ''package main'' example_diff [11, 12] ''rules''
       = Inr [[(''line'', JInt 11), (''severity'', JStr ''warning''), (''message'', JStr ''Name it'')]]"
    by code_simp
  have sent: "CreateDiscussion (glyph_warning @ '' **RejPAL**: Name it'') ''src/app.go'' (JInt 11)
          (JStr ''b0'', JStr ''h0'', JStr ''s0'') 201
       \<in> set (fst (main example_repr (example_gitlab 204 []) example_ai IGNORE_PATTERNS REVIEW_EXTENSIONS ''rules''))"
    by code_simp
  note inst = dropped_findings_never_published
    [of example_ai "''src/app.go''" "''package main''" example_diff "[11, 12]" "''rules''"
        example_findings "glyph_warning @ '' **RejPAL**: Name it''" "''src/app.go''" "JInt 11"
        "(JStr ''b0'', JStr ''h0'', JStr ''s0'')" 201 example_repr "example_gitlab 204 []"
        IGNORE_PATTERNS REVIEW_EXTENSIONS]
  from inst answer have one: "\<exists>comments.
         analyze_with_ai example_ai ''src/app.go'' ''package main'' example_diff [11, 12] ''rules''
           = Inr comments
         \<and> (\<forall>c. c \<in> set comments \<longleftrightarrow>
                 (JObject c \<in> set example_findings \<and> py_in (dict_get c ''line'' JNull) [11, 12]
                  \<and> truthy (dict_get c ''message'' JNull)))"
    by blast
  from inst sent have two: "\<exists>mr ch eligible comment.
         get_mr_changes (example_gitlab 204 []) = Inr mr \<and> ch \<in> set (changes mr)
         \<and> change_new_path ch = ''src/app.go''
         \<and> parse_diff_for_new_lines (change_diff ch) = Inr eligible
         \<and> py_in (JInt 11) eligible
         \<and> format_comment example_repr comment = Inr (glyph_warning @ '' **RejPAL**: Name it'')
         \<and> JInt 11 = dict_get comment ''line'' JNull
         \<and> truthy (dict_get comment ''message'' JNull)"
    by blast
  from answer one kept sent two show ?thesis by blast
qed



text \<open>The store under the requests of a pass.\<close>

lemma apply_calls_Nil [simp]: "apply_calls [] st = st"
  by (simp add: apply_calls_def)

lemma apply_calls_Cons [simp]: "apply_calls (c # cs) st = apply_calls cs (apply_call c st)"
  by (simp add: apply_calls_def)
























text \<open>
  C5 fails on the code in its second half.  In the example environment the one delete
  request is answered with status 404.  The pass goes on (the note is created, the comment
  published, the summary updated), and the counter of deleted comments is 1: the loop adds
  one after every request and never looks at the response.
\<close>

theorem failed_delete_counted:
  "fst (main py_repr (example_gitlab 404 []) example_ai IGNORE_PATTERNS REVIEW_EXTENSIONS ''rules'')
     = [DeleteNote 7 404,
        CreateNote placeholder (Inr 9),
        CreateDiscussion (glyph_warning @ '' **RejPAL**: Name it'') ''src/app.go'' (JInt 11)
          (JStr ''b0'', JStr ''h0'', JStr ''s0'') 201,
        UpdateNote 9 (summary_text 1 1 1) (Inr ())]
   \<and> snd (main py_repr (example_gitlab 404 []) example_ai IGNORE_PATTERNS REVIEW_EXTENSIONS ''rules'')
     = Inr \<lparr>reviewed_files = 1, total_comments = 1, deleted_count = 1\<rparr>
   \<and> deleted_row 1
     = ''| Smaz'' @ [CHR 0xC3, CHR 0xA1] @ ''no star'' @ [CHR 0xC3, CHR 0xBD] @ ''ch | 1 |''"
  by code_simp

text \<open>
  In general: the outcome of a pass does not depend on the answers to the delete
  requests, and the counter of a finished pass is the number of old comments found, that
  is, of delete requests sent.
\<close>

lemma publish_comments_delete_update:
  "publish_comments py_repr (gitlab\<lparr>delete_mr_note := f\<rparr>) file_path refs comments n
     = publish_comments py_repr gitlab file_path refs comments n"
  by (induction comments arbitrary: n) (simp_all add: Let_def)

lemma review_changes_delete_update:
  "review_changes py_repr (gitlab\<lparr>delete_mr_note := f\<rparr>) ai_client patterns extensions rules
       source_branch refs chs counters
     = review_changes py_repr gitlab ai_client patterns extensions rules source_branch refs chs counters"
proof (induction chs arbitrary: counters)
  case Nil
  show ?case by simp
next
  case (Cons ch rest)
  obtain r t where "counters = (r, t)" by (cases counters)
  with Cons show ?case
    by (simp add: Let_def publish_comments_delete_update cong: if_cong option.case_cong)
qed

lemma ensure_summary_note_delete_update:
  "ensure_summary_note (gitlab\<lparr>delete_mr_note := f\<rparr>) ns = ensure_summary_note gitlab ns"
  by (simp add: ensure_summary_note_def)

lemma main_outcome_ignores_delete_status:
  "snd (main py_repr (gitlab\<lparr>delete_mr_note := f\<rparr>) ai_client patterns extensions rules)
     = snd (main py_repr gitlab ai_client patterns extensions rules)"
  unfolding main_def
  by (simp add: snd_io_bind delete_existing_count review_changes_delete_update
        ensure_summary_note_delete_update cong: sum.case_cong)

lemma main_deleted_count:
  assumes "snd (main py_repr gitlab ai_client patterns extensions rules) = Inr rep"
  shows "\<exists>discussions. get_mr_discussions gitlab = Inr discussions
           \<and> deleted_count rep = length (get_existing_ai_comments discussions)"
  using assms unfolding main_def
  by (auto simp: snd_io_bind delete_existing_count split: sum.splits prod.splits)

end
